theory Spec2Isabelle
  imports Main
begin

section \<open>State events of a sync room response\<close>

text \<open>
  The function \<^verbatim>\<open>iterateResponseStateEvents\<close> walks a room response of
  \<^verbatim>\<open>/sync\<close>. Both sections of the response and their \<^verbatim>\<open>events\<close> arrays are
  optional (\<^verbatim>\<open>roomResponse.state?.events\<close>), which is an \<open>option\<close> here. An event
  carries a \<^verbatim>\<open>state_key\<close> that the function tests with
  \<^verbatim>\<open>typeof event.state_key === "string"\<close>; the JavaScript values the test tells
  apart are the constructors of \<open>js_value\<close>.
\<close>

datatype js_value = JUndefined | JNull | JString string | JNumber int | JBool bool

record StateEvent =
  event_type :: string
  state_key :: js_value
  content :: "(string \<times> js_value) list"

record Section =
  events :: "StateEvent list option"

record RoomResponse =
  state :: "Section option"
  timeline_section :: "Section option"

text \<open>\<^verbatim>\<open>typeof v === "string"\<close>\<close>

fun typeof_string :: "js_value \<Rightarrow> bool" where
  "typeof_string (JString s) = True"
| "typeof_string v = False"

text \<open>\<^verbatim>\<open>roomResponse.state?.events\<close>: undefined when the section is missing.\<close>

definition section_events :: "Section option \<Rightarrow> StateEvent list option" where
  "section_events sec = (case sec of None \<Rightarrow> None | Some s \<Rightarrow> events s)"

text \<open>
  The callback is a state transformer that may throw: it returns \<open>Inl\<close> with the thrown
  value or \<open>Inr\<close> with the state after the call. A throw leaves the loop at once, as the
  exception does in the source. The first loop calls the callback on each element.
\<close>

fun iterate_state :: "(StateEvent \<Rightarrow> 's \<Rightarrow> 'x + 's) \<Rightarrow> StateEvent list \<Rightarrow> 's \<Rightarrow> 'x + 's" where
  "iterate_state callback [] s = Inr s"
| "iterate_state callback (ev # evs) s =
     (case callback ev s of
        Inl x \<Rightarrow> Inl x
      | Inr s' \<Rightarrow> iterate_state callback evs s')"

text \<open>The second loop calls it only on the elements with a string \<^verbatim>\<open>state_key\<close>.\<close>

fun iterate_timeline :: "(StateEvent \<Rightarrow> 's \<Rightarrow> 'x + 's) \<Rightarrow> StateEvent list \<Rightarrow> 's \<Rightarrow> 'x + 's" where
  "iterate_timeline callback [] s = Inr s"
| "iterate_timeline callback (ev # evs) s =
     (if typeof_string (state_key ev)
      then (case callback ev s of
              Inl x \<Rightarrow> Inl x
            | Inr s' \<Rightarrow> iterate_timeline callback evs s')
      else iterate_timeline callback evs s)"

definition iterateResponseStateEvents ::
    "RoomResponse \<Rightarrow> (StateEvent \<Rightarrow> 's \<Rightarrow> 'x + 's) \<Rightarrow> 's \<Rightarrow> 'x + 's" where
  "iterateResponseStateEvents roomResponse callback s =
     (case (case section_events (state roomResponse) of
              None \<Rightarrow> Inr s
            | Some stateEvents \<Rightarrow> iterate_state callback stateEvents s) of
        Inl x \<Rightarrow> Inl x
      | Inr s1 \<Rightarrow>
          (case section_events (timeline_section roomResponse) of
             None \<Rightarrow> Inr s1
           | Some timelineEvents \<Rightarrow> iterate_timeline callback timelineEvents s1))"

text \<open>
  The callback that records its argument and never throws: the state it builds is the
  sequence of the events the callback was invoked on, oldest call first.
\<close>

definition record_call :: "StateEvent \<Rightarrow> StateEvent list \<Rightarrow> unit + StateEvent list" where
  "record_call ev calls = Inr (calls @ [ev])"

text \<open>The events of a section, none when the section or its array is missing.\<close>

definition events_of :: "Section option \<Rightarrow> StateEvent list" where
  "events_of sec = (case section_events sec of None \<Rightarrow> [] | Some evs \<Rightarrow> evs)"

section \<open>Storage, entries and the room\<close>

text \<open>
  The classes \<^verbatim>\<open>BaseRoom\<close> works with (the storage, the timeline, the entries, the room
  encryption, the gap writer, the summary) are not part of the sources at hand. What
  \<^verbatim>\<open>BaseRoom\<close> calls on them is kept as a list of \<open>effect\<close>s in call order, and what
  their asynchronous calls answer is a parameter of the model.
\<close>

datatype store_name =
    pendingEvents | timelineEvents | timelineFragments
  | inboundGroupSessions | groupSessionDecryptions | deviceIdentities

datatype error = Error string | TypeError string

type_synonym put = "store_name \<times> string"

record Transaction =
  stores :: "store_name list"
  pending :: "put list"

text \<open>
  Modelled from the spec: the storage engine is missing from the sources. Its contract
  reads "\<^verbatim>\<open>txn.complete()\<close> commits, \<^verbatim>\<open>txn.abort()\<close> discards all writes in that
  transaction". The stored state is the list of the committed transactions, oldest first,
  each with the stores it spans and the writes it made.
\<close>

definition complete :: "Transaction \<Rightarrow> Transaction list \<Rightarrow> Transaction list" where
  "complete txn committed = committed @ [txn]"

definition abort :: "Transaction \<Rightarrow> Transaction list \<Rightarrow> Transaction list" where
  "abort txn committed = committed"

record RoomKey =
  senderKey :: string
  sessionId :: string

datatype decryption_state = undecrypted | decrypting | decrypted | failed

text \<open>
  Modelled from the spec: \<^verbatim>\<open>EventEntry\<close> is missing from the sources. \<^verbatim>\<open>BaseRoom\<close>
  reads its \<^verbatim>\<open>id\<close>, \<^verbatim>\<open>eventType\<close> and \<^verbatim>\<open>event\<close>; the spec's data model adds the
  decryption state and, for an encrypted event, the reference to its session. Entries are
  objects: the heap lists them and an entry is named by its position there.
\<close>

record EventEntry =
  entryId :: string
  eventType :: string
  event :: string
  session :: "RoomKey option"
  decryptionState :: decryption_state

type_synonym addr = nat

record Timeline =
  remoteEntries :: "addr list"

datatype DecryptionSource = SourceSync | SourceTimeline | SourceRetry

datatype log_value = LString string | LNat nat | LBool bool

datatype effect =
    ReadTxn "store_name list"
  | ReadWriteTxn "store_name list"
  | PrepareDecryptAll "string list" DecryptionSource
  | PreparationDecrypt nat
  | PreparationDispose nat
  | ChangesWrite
  | VerifySenders
  | TxnAbort "store_name list"
  | TxnComplete "store_name list"
  | ApplyToEntries "addr list"
  | UpdateEvents "addr list"
  | Messages string string nat
  | WriteGapFill
  | WriteFragmentFill
  | ApplyGapFill
  | ReplaceEntries "addr list"
  | AddOrReplaceEntries "addr list"
  | EnableEncryption
  | TimelineLoad
  | TimelineDispose
  | NotifyTimelineClosed
  | ApplyTimelineEntries "addr list"
  | WriteAndApplyData
  | EmitUpdate

text \<open>
  The fields of \<^verbatim>\<open>BaseRoom\<close> the modelled methods read or write, with the stored state
  behind \<^verbatim>\<open>_storage\<close>, the entry objects, the log item and the calls made so far.
  \<open>roomEncryption\<close> and \<open>observedEvents\<close> say whether the field is set.
\<close>

record room =
  roomId :: string
  storage :: "Transaction list"
  heap :: "EventEntry list"
  fragmentIdComparer :: "nat list"
  timeline :: "Timeline option"
  roomEncryption :: bool
  observedEvents :: bool
  log :: "(string \<times> log_value) list"
  effects :: "effect list"

definition call :: "effect \<Rightarrow> room \<Rightarrow> room" where
  "call e w = w\<lparr>effects := effects w @ [e]\<rparr>"

text \<open>
  Everything runs on one thread, so other code touches the room only while the modelled
  method is suspended at an \<^verbatim>\<open>await\<close>. What the others do to the fields that the
  modelled methods read after a suspension:
\<close>

datatype interference = SetTimeline "Timeline option" | SetObservedEvents bool | SetEncryption

fun others :: "interference \<Rightarrow> room \<Rightarrow> room" where
  "others (SetTimeline t) w = w\<lparr>timeline := t\<rparr>"
| "others (SetObservedEvents b) w = w\<lparr>observedEvents := b\<rparr>"
| "others SetEncryption w = w\<lparr>roomEncryption := True\<rparr>"

section \<open>The decryption request\<close>

text \<open>
  \<^verbatim>\<open>_decryptEntries\<close> hands an \<^verbatim>\<open>async\<close> function to a new \<^verbatim>\<open>DecryptionRequest\<close>,
  whose constructor starts it. The function runs until its next \<^verbatim>\<open>await\<close> and is resumed
  when the awaited call has answered; \<^verbatim>\<open>dispose()\<close> can be called whenever it is
  suspended. The state of the promise names the \<^verbatim>\<open>await\<close> the function is suspended at,
  with the local variables its continuation still reads (\<^verbatim>\<open>isTimelineOpen\<close>,
  \<^verbatim>\<open>writeTxn\<close>), or how the function ended.
\<close>

datatype promise_state =
    AwaitReadTxn
  | AwaitPrepareDecryptAll
  | AwaitDecrypt
  | AwaitReadWriteTxn bool
  | AwaitWrite bool Transaction
  | AwaitVerifySenders Transaction
  | AwaitComplete Transaction
  | Resolved
  | Rejected error

record DecryptionRequest =
  cancelled :: bool
  preparation :: "nat option"
  promise :: promise_state

text \<open>
  What the awaited calls answer: the error thrown, if any, else the value. The writes
  that \<^verbatim>\<open>changes.write\<close> made on the transaction by the time it returns or throws are
  \<open>write_puts\<close>, and \<open>applyToEntry\<close> is what \<^verbatim>\<open>decryption.applyToEntries\<close> does to one
  entry.
\<close>

record outcomes =
  readTxn_throws :: "error option"
  prepareDecryptAll_result :: "error + nat"
  decrypt_throws :: "error option"
  readWriteTxn_throws :: "error option"
  write_puts :: "put list"
  write_throws :: "error option"
  verifySenders_throws :: "error option"
  complete_throws :: "error option"
  applyToEntry :: "EventEntry \<Rightarrow> EventEntry"

definition EVENT_ENCRYPTED_TYPE :: string where
  "EVENT_ENCRYPTED_TYPE = ''m.room.encrypted''"

text \<open>\<^verbatim>\<open>entries.filter(entry => entry.eventType === EVENT_ENCRYPTED_TYPE).map(entry => entry.event)\<close>\<close>

definition encrypted_events :: "EventEntry list \<Rightarrow> addr list \<Rightarrow> string list" where
  "encrypted_events h es =
     map event (filter (\<lambda>e. eventType e = EVENT_ENCRYPTED_TYPE) (map (\<lambda>a. h ! a) es))"

text \<open>\<^verbatim>\<open>decryption.applyToEntries(entries)\<close> updates each entry of the batch in place.\<close>

definition applyToEntries :: "outcomes \<Rightarrow> addr list \<Rightarrow> EventEntry list \<Rightarrow> EventEntry list" where
  "applyToEntries aw es h = fold (\<lambda>a h'. h'[a := applyToEntry aw (h' ! a)]) es h"

text \<open>\<^verbatim>\<open>stores\<close>, as built before \<^verbatim>\<open>readWriteTxn\<close> is called.\<close>

definition write_stores :: "bool \<Rightarrow> store_name list" where
  "write_stores isTimelineOpen =
     [groupSessionDecryptions] @ (if isTimelineOpen then [deviceIdentities] else [])"

text \<open>From the first check of \<^verbatim>\<open>r.cancelled\<close> to the \<^verbatim>\<open>await\<close> of \<^verbatim>\<open>prepareDecryptAll\<close>.\<close>

definition prepare_step ::
    "DecryptionSource \<Rightarrow> addr list \<Rightarrow> DecryptionRequest \<Rightarrow> room \<Rightarrow> DecryptionRequest \<times> room" where
  "prepare_step src es r w =
     (if cancelled r then (r\<lparr>promise := Resolved\<rparr>, w)
      else (r\<lparr>promise := AwaitPrepareDecryptAll\<rparr>,
            call (PrepareDecryptAll (encrypted_events (heap w) es) src) w))"

text \<open>
  \<^verbatim>\<open>_decryptEntries(source, entries, inboundSessionTxn)\<close>: the request as the constructor
  leaves it, with the function suspended at its first \<^verbatim>\<open>await\<close>.
\<close>

definition decryptEntries ::
    "DecryptionSource \<Rightarrow> addr list \<Rightarrow> Transaction option \<Rightarrow> room \<Rightarrow> DecryptionRequest \<times> room" where
  "decryptEntries src es inboundSessionTxn w =
     (let r = \<lparr>cancelled = False, preparation = None, promise = AwaitReadTxn\<rparr> in
      case inboundSessionTxn of
        None \<Rightarrow> (r, call (ReadTxn [inboundGroupSessions]) w)
      | Some txn \<Rightarrow> prepare_step src es r w)"

text \<open>The continuation of each \<^verbatim>\<open>await\<close>, run when the awaited call has answered.\<close>

fun resume_at ::
    "outcomes \<Rightarrow> DecryptionSource \<Rightarrow> addr list \<Rightarrow> promise_state \<Rightarrow> DecryptionRequest \<Rightarrow> room \<Rightarrow>
     DecryptionRequest \<times> room" where
  "resume_at aw src es AwaitReadTxn r w =
     (case readTxn_throws aw of
        Some err \<Rightarrow> (r\<lparr>promise := Rejected err\<rparr>, w)
      | None \<Rightarrow> prepare_step src es r w)"
| "resume_at aw src es AwaitPrepareDecryptAll r w =
     (case prepareDecryptAll_result aw of
        Inl err \<Rightarrow> (r\<lparr>promise := Rejected err\<rparr>, w)
      | Inr p \<Rightarrow>
          (if cancelled r then (r\<lparr>preparation := Some p, promise := Resolved\<rparr>, w)
           else (r\<lparr>preparation := Some p, promise := AwaitDecrypt\<rparr>,
                 call (PreparationDecrypt p) w)))"
| "resume_at aw src es AwaitDecrypt r w =
     (case decrypt_throws aw of
        Some err \<Rightarrow> (r\<lparr>promise := Rejected err\<rparr>, w)
      | None \<Rightarrow>
          (if cancelled r then (r\<lparr>preparation := None, promise := Resolved\<rparr>, w)
           else (let isTimelineOpen = (timeline w \<noteq> None) in
                 (r\<lparr>preparation := None, promise := AwaitReadWriteTxn isTimelineOpen\<rparr>,
                  call (ReadWriteTxn (write_stores isTimelineOpen)) w))))"
| "resume_at aw src es (AwaitReadWriteTxn isTimelineOpen) r w =
     (case readWriteTxn_throws aw of
        Some err \<Rightarrow> (r\<lparr>promise := Rejected err\<rparr>, w)
      | None \<Rightarrow>
          (r\<lparr>promise := AwaitWrite isTimelineOpen
                \<lparr>stores = write_stores isTimelineOpen, pending = []\<rparr>\<rparr>,
           call ChangesWrite w))"
| "resume_at aw src es (AwaitWrite isTimelineOpen writeTxn) r w =
     (let writeTxn' = writeTxn\<lparr>pending := pending writeTxn @ write_puts aw\<rparr> in
      case write_throws aw of
        Some err \<Rightarrow>
          (r\<lparr>promise := Rejected err\<rparr>,
           (call (TxnAbort (stores writeTxn')) w)\<lparr>storage := abort writeTxn' (storage w)\<rparr>)
      | None \<Rightarrow>
          (if isTimelineOpen
           then (r\<lparr>promise := AwaitVerifySenders writeTxn'\<rparr>, call VerifySenders w)
           else (r\<lparr>promise := AwaitComplete writeTxn'\<rparr>,
                 call (TxnComplete (stores writeTxn')) w)))"
| "resume_at aw src es (AwaitVerifySenders writeTxn) r w =
     (case verifySenders_throws aw of
        Some err \<Rightarrow>
          (r\<lparr>promise := Rejected err\<rparr>,
           (call (TxnAbort (stores writeTxn)) w)\<lparr>storage := abort writeTxn (storage w)\<rparr>)
      | None \<Rightarrow>
          (r\<lparr>promise := AwaitComplete writeTxn\<rparr>, call (TxnComplete (stores writeTxn)) w))"
| "resume_at aw src es (AwaitComplete writeTxn) r w =
     (case complete_throws aw of
        Some err \<Rightarrow> (r\<lparr>promise := Rejected err\<rparr>, w)
      | None \<Rightarrow>
          (let w1 = w\<lparr>storage := complete writeTxn (storage w),
                      heap := applyToEntries aw es (heap w)\<rparr>;
               w2 = call (ApplyToEntries es) w1
           in (r\<lparr>promise := Resolved\<rparr>,
               if observedEvents w2 then call (UpdateEvents es) w2 else w2)))"
| "resume_at aw src es Resolved r w = (r, w)"
| "resume_at aw src es (Rejected err) r w = (r, w)"

text \<open>\<^verbatim>\<open>DecryptionRequest.dispose()\<close>\<close>

definition dispose :: "DecryptionRequest \<Rightarrow> room \<Rightarrow> DecryptionRequest \<times> room" where
  "dispose r w =
     (r\<lparr>cancelled := True\<rparr>,
      case preparation r of
        Some p \<Rightarrow> call (PreparationDispose p) w
      | None \<Rightarrow> w)"

text \<open>
  One move of the scheduler: the request is disposed, the suspended function is resumed,
  or other code changes the room. A schedule is a list of moves.
\<close>

datatype move = Dispose | Resume | Other interference

fun step ::
    "outcomes \<Rightarrow> DecryptionSource \<Rightarrow> addr list \<Rightarrow> move \<Rightarrow> DecryptionRequest \<times> room \<Rightarrow>
     DecryptionRequest \<times> room" where
  "step aw src es Dispose (r, w) = dispose r w"
| "step aw src es Resume (r, w) = resume_at aw src es (promise r) r w"
| "step aw src es (Other i) (r, w) = (r, others i w)"

fun run ::
    "outcomes \<Rightarrow> DecryptionSource \<Rightarrow> addr list \<Rightarrow> move list \<Rightarrow> DecryptionRequest \<times> room \<Rightarrow>
     DecryptionRequest \<times> room" where
  "run aw src es [] c = c"
| "run aw src es (m # ms) c = run aw src es ms (step aw src es m c)"

subsection \<open>Phases of a request\<close>

text \<open>
  The calls that open the write transaction, work on it, end it or follow its commit.
\<close>

fun txn_effect :: "effect \<Rightarrow> bool" where
  "txn_effect (ReadWriteTxn s) = True"
| "txn_effect ChangesWrite = True"
| "txn_effect VerifySenders = True"
| "txn_effect (TxnAbort s) = True"
| "txn_effect (TxnComplete s) = True"
| "txn_effect (ApplyToEntries es) = True"
| "txn_effect (UpdateEvents es) = True"
| "txn_effect e = False"

definition txn_effects :: "effect list \<Rightarrow> effect list" where
  "txn_effects xs = filter txn_effect xs"

text \<open>The three suspensions before \<^verbatim>\<open>readWriteTxn\<close> is called, and the two ways to end.\<close>

fun before_write :: "promise_state \<Rightarrow> bool" where
  "before_write AwaitReadTxn = True"
| "before_write AwaitPrepareDecryptAll = True"
| "before_write AwaitDecrypt = True"
| "before_write p = False"

fun settled :: "promise_state \<Rightarrow> bool" where
  "settled Resolved = True"
| "settled (Rejected err) = True"
| "settled p = False"

text \<open>\<^verbatim>\<open>changes.write\<close> has been called and has answered.\<close>

fun write_answered :: "promise_state \<Rightarrow> bool" where
  "write_answered (AwaitVerifySenders t) = True"
| "write_answered (AwaitComplete t) = True"
| "write_answered Resolved = True"
| "write_answered (Rejected err) = True"
| "write_answered p = False"

text \<open>
  A request that has not called \<^verbatim>\<open>readWriteTxn\<close>, started in the room \<open>w0\<close>: nothing
  stored, no entry touched, no call on a write transaction, and a plan that is held is
  the one \<^verbatim>\<open>prepareDecryptAll\<close> answered.
\<close>

definition pre_ok :: "outcomes \<Rightarrow> room \<Rightarrow> DecryptionRequest \<times> room \<Rightarrow> bool" where
  "pre_ok aw w0 c =
     (case c of (r, w) \<Rightarrow>
        storage w = storage w0 \<and> heap w = heap w0 \<and>
        txn_effects (effects w) = txn_effects (effects w0) \<and>
        (before_write (promise r) \<or> settled (promise r)) \<and>
        (promise r = AwaitReadTxn \<or> promise r = AwaitPrepareDecryptAll \<longrightarrow> preparation r = None) \<and>
        (promise r = AwaitDecrypt \<longrightarrow> preparation r \<noteq> None) \<and>
        (\<forall>p. preparation r = Some p \<longrightarrow> prepareDecryptAll_result aw = Inr p))"

text \<open>
  A request that has called \<^verbatim>\<open>readWriteTxn\<close> with \<^verbatim>\<open>isTimelineOpen\<close> equal to \<open>b\<close>:
  what is stored, the entries and the calls on the transaction, for each state of the
  promise.
\<close>

definition the_txn :: "outcomes \<Rightarrow> bool \<Rightarrow> Transaction" where
  "the_txn aw b = \<lparr>stores = write_stores b, pending = write_puts aw\<rparr>"

definition verified :: "bool \<Rightarrow> effect list" where
  "verified b = (if b then [VerifySenders] else [])"

fun write_ok_at ::
    "outcomes \<Rightarrow> addr list \<Rightarrow> bool \<Rightarrow> room \<Rightarrow> promise_state \<Rightarrow> room \<Rightarrow> bool" where
  "write_ok_at aw es b w0 (AwaitReadWriteTxn b') w =
     (b' = b \<and> storage w = storage w0 \<and> heap w = heap w0 \<and>
      txn_effects (effects w) = txn_effects (effects w0) @ [ReadWriteTxn (write_stores b)])"
| "write_ok_at aw es b w0 (AwaitWrite b' t) w =
     (b' = b \<and> t = \<lparr>stores = write_stores b, pending = []\<rparr> \<and>
      storage w = storage w0 \<and> heap w = heap w0 \<and> readWriteTxn_throws aw = None \<and>
      txn_effects (effects w) =
        txn_effects (effects w0) @ [ReadWriteTxn (write_stores b), ChangesWrite])"
| "write_ok_at aw es b w0 (AwaitVerifySenders t) w =
     (b \<and> t = the_txn aw b \<and>
      storage w = storage w0 \<and> heap w = heap w0 \<and>
      readWriteTxn_throws aw = None \<and> write_throws aw = None \<and>
      txn_effects (effects w) =
        txn_effects (effects w0) @ [ReadWriteTxn (write_stores b), ChangesWrite, VerifySenders])"
| "write_ok_at aw es b w0 (AwaitComplete t) w =
     (t = the_txn aw b \<and>
      storage w = storage w0 \<and> heap w = heap w0 \<and>
      readWriteTxn_throws aw = None \<and> write_throws aw = None \<and>
      (b \<longrightarrow> verifySenders_throws aw = None) \<and>
      txn_effects (effects w) =
        txn_effects (effects w0) @ [ReadWriteTxn (write_stores b), ChangesWrite] @ verified b @
          [TxnComplete (write_stores b)])"
| "write_ok_at aw es b w0 Resolved w =
     (storage w = storage w0 @ [the_txn aw b] \<and>
      heap w = applyToEntries aw es (heap w0) \<and>
      readWriteTxn_throws aw = None \<and> write_throws aw = None \<and>
      (b \<longrightarrow> verifySenders_throws aw = None) \<and> complete_throws aw = None \<and>
      (\<exists>upd. (upd = [] \<or> upd = [UpdateEvents es]) \<and>
         txn_effects (effects w) =
           txn_effects (effects w0) @ [ReadWriteTxn (write_stores b), ChangesWrite] @ verified b @
             [TxnComplete (write_stores b), ApplyToEntries es] @ upd))"
| "write_ok_at aw es b w0 (Rejected err) w =
     (storage w = storage w0 \<and> heap w = heap w0 \<and>
      (readWriteTxn_throws aw = Some err \<and>
         txn_effects (effects w) = txn_effects (effects w0) @ [ReadWriteTxn (write_stores b)]
       \<or> readWriteTxn_throws aw = None \<and> write_throws aw = Some err \<and>
         txn_effects (effects w) =
           txn_effects (effects w0) @
             [ReadWriteTxn (write_stores b), ChangesWrite, TxnAbort (write_stores b)]
       \<or> b \<and> readWriteTxn_throws aw = None \<and> write_throws aw = None \<and>
         verifySenders_throws aw = Some err \<and>
         txn_effects (effects w) =
           txn_effects (effects w0) @
             [ReadWriteTxn (write_stores b), ChangesWrite, VerifySenders,
              TxnAbort (write_stores b)]
       \<or> readWriteTxn_throws aw = None \<and> write_throws aw = None \<and>
         (b \<longrightarrow> verifySenders_throws aw = None) \<and> complete_throws aw = Some err \<and>
         txn_effects (effects w) =
           txn_effects (effects w0) @ [ReadWriteTxn (write_stores b), ChangesWrite] @
             verified b @ [TxnComplete (write_stores b)]))"
| "write_ok_at aw es b w0 p w = False"

definition write_ok ::
    "outcomes \<Rightarrow> addr list \<Rightarrow> bool \<Rightarrow> room \<Rightarrow> DecryptionRequest \<times> room \<Rightarrow> bool" where
  "write_ok aw es b w0 c =
     (case c of (r, w) \<Rightarrow> preparation r = None \<and> write_ok_at aw es b w0 (promise r) w)"

subsection \<open>A request on one encrypted entry\<close>

text \<open>
  A room with one stored, still undecrypted entry that its open timeline shows, and
  awaited calls that all succeed; the variants let one call throw.
\<close>

definition example_entry :: EventEntry where
  "example_entry =
     \<lparr>entryId = ''$e1'', eventType = ''m.room.encrypted'', event = ''ciphertext 1'',
      session = Some \<lparr>senderKey = ''curve'', sessionId = ''s1''\<rparr>,
      decryptionState = undecrypted\<rparr>"

definition example_room :: room where
  "example_room =
     \<lparr>roomId = ''!room'', storage = [], heap = [example_entry], fragmentIdComparer = [],
      timeline = Some \<lparr>remoteEntries = [0]\<rparr>, roomEncryption = True,
      observedEvents = False, log = [], effects = []\<rparr>"

definition example_outcomes :: outcomes where
  "example_outcomes =
     \<lparr>readTxn_throws = None, prepareDecryptAll_result = Inr 7, decrypt_throws = None,
      readWriteTxn_throws = None, write_puts = [(groupSessionDecryptions, ''$e1'')],
      write_throws = None, verifySenders_throws = None, complete_throws = None,
      applyToEntry = (\<lambda>e. e\<lparr>decryptionState := decrypted\<rparr>)\<rparr>"

definition write_fails :: outcomes where
  "write_fails = example_outcomes\<lparr>write_throws := Some (Error ''write failed'')\<rparr>"

definition example_start :: "DecryptionRequest \<times> room" where
  "example_start = decryptEntries SourceTimeline [0] None example_room"

section \<open>Filling a gap\<close>

text \<open>
  How an \<^verbatim>\<open>async\<close> method ended, or that it is still suspended when the schedule of the
  request it awaits is used up.
\<close>

datatype 'a outcome = Returned 'a | Thrown error | Pending

datatype Direction = Backward | Forward

text \<open>
  Modelled from the spec: \<^verbatim>\<open>Direction.asApiString\<close> is missing from the sources; the
  \<^verbatim>\<open>dir\<close> of a pagination request is \<^verbatim>\<open>"b"\<close> (backward) or \<^verbatim>\<open>"f"\<close> (forward).
\<close>

fun asApiString :: "Direction \<Rightarrow> string" where
  "asApiString Backward = ''b''"
| "asApiString Forward = ''f''"

record FragmentEntry =
  fragmentId :: nat
  direction :: Direction
  token :: string
  edgeReached :: bool

text \<open>
  What \<^verbatim>\<open>GapWriter.writeFragmentFill\<close> answers: the entry objects it created
  (\<^verbatim>\<open>entries\<close>, \<^verbatim>\<open>updatedEntries\<close>) and the fragments.
\<close>

record GapResult =
  created_entries :: "EventEntry list"
  created_updatedEntries :: "EventEntry list"
  fragments :: "nat list"

text \<open>
  What the calls awaited by \<^verbatim>\<open>fillGap\<close> answer. \<^verbatim>\<open>_writeGapFill\<close> is a hook for
  subclasses: it may write to the transaction and answer changes for \<^verbatim>\<open>_applyGapFill\<close>;
  in \<^verbatim>\<open>BaseRoom\<close> itself it writes nothing and answers \<^verbatim>\<open>undefined\<close>.
\<close>

record gap_outcomes =
  messages_result :: "error + string list"
  gap_readWriteTxn_throws :: "error option"
  writeGapFill_puts :: "put list"
  writeGapFill_result :: "error + string option"
  writeFragmentFill_puts :: "put list"
  writeFragmentFill_result :: "error + GapResult"
  gap_complete_throws :: "error option"

text \<open>New objects go to the end of the heap.\<close>

definition alloc :: "EventEntry list \<Rightarrow> EventEntry list \<Rightarrow> addr list \<times> EventEntry list" where
  "alloc objs h = ([length h ..< length h + length objs], h @ objs)"

definition gap_stores :: "store_name list" where
  "gap_stores = [pendingEvents, timelineEvents, timelineFragments]"

text \<open>
  A request that a method creates and awaits itself is out of reach of everybody else:
  nobody can dispose it.
\<close>

definition undisposed :: "move list \<Rightarrow> move list" where
  "undisposed sched = filter (\<lambda>m. m \<noteq> Dispose) sched"

text \<open>
  \<^verbatim>\<open>fillGap\<close> from the point where \<^verbatim>\<open>await txn.complete()\<close> has succeeded. \<open>meanwhile\<close> is
  what other code did to the room while \<^verbatim>\<open>fillGap\<close> was suspended up to here, and
  \<open>sched\<close> schedules the decryption request.
\<close>

definition fillGap_committed ::
    "outcomes \<Rightarrow> interference list \<Rightarrow> move list \<Rightarrow> string option \<Rightarrow> addr list \<Rightarrow> addr list \<Rightarrow>
     nat list \<Rightarrow> room \<Rightarrow> unit outcome \<times> room" where
  "fillGap_committed aw meanwhile sched extraGapFillChanges gapEntries gapUpdatedEntries gapFragments w =
     (let w1 = fold others meanwhile w;
          (p, w2) =
            (if roomEncryption w1
             then (case run aw SourceTimeline gapEntries (undisposed sched)
                          (decryptEntries SourceTimeline gapEntries None w1) of
                     (r, w') \<Rightarrow> (promise r, w'))
             else (Resolved, w1))
      in case p of
           Rejected err \<Rightarrow> (Thrown err, w2)
         | Resolved \<Rightarrow>
             (let w3 = w2\<lparr>fragmentIdComparer := fragmentIdComparer w2 @ gapFragments\<rparr>;
                  w4 = (case extraGapFillChanges of
                          Some changes \<Rightarrow> call ApplyGapFill w3
                        | None \<Rightarrow> w3);
                  w5 = (case timeline w4 of
                          Some t \<Rightarrow>
                            call (AddOrReplaceEntries gapEntries)
                              (call (ReplaceEntries gapUpdatedEntries) w4)
                        | None \<Rightarrow> w4)
              in (Returned (), w5))
         | _ \<Rightarrow> (Pending, w2))"

text \<open>\<^verbatim>\<open>fillGap(fragmentEntry, amount, log)\<close>\<close>

definition fillGap ::
    "gap_outcomes \<Rightarrow> outcomes \<Rightarrow> interference list \<Rightarrow> move list \<Rightarrow> FragmentEntry \<Rightarrow> nat \<Rightarrow>
     room \<Rightarrow> unit outcome \<times> room" where
  "fillGap g aw meanwhile sched fragmentEntry amount w0 =
     (let w1 = w0\<lparr>log := log w0 @
                  [(''id'', LString (roomId w0)),
                   (''fragment'', LNat (fragmentId fragmentEntry)),
                   (''dir'', LString (asApiString (direction fragmentEntry)))]\<rparr>
      in
      if edgeReached fragmentEntry
      then (Returned (), w1\<lparr>log := log w1 @ [(''edgeReached'', LBool True)]\<rparr>)
      else
        (let w2 = call (Messages (token fragmentEntry)
                          (asApiString (direction fragmentEntry)) amount) w1
         in case messages_result g of
              Inl err \<Rightarrow> (Thrown err, w2)
            | Inr response \<Rightarrow>
                (let w3 = call (ReadWriteTxn gap_stores) w2
                 in case gap_readWriteTxn_throws g of
                      Some err \<Rightarrow> (Thrown err, w3)
                    | None \<Rightarrow>
                        (let txn = \<lparr>stores = gap_stores, pending = []\<rparr>;
                             w4 = call WriteGapFill w3;
                             txn1 = txn\<lparr>pending := pending txn @ writeGapFill_puts g\<rparr>
                         in case writeGapFill_result g of
                              Inl err \<Rightarrow>
                                (Thrown err,
                                 (call (TxnAbort (stores txn1)) w4)
                                   \<lparr>storage := abort txn1 (storage w4)\<rparr>)
                            | Inr extraGapFillChanges \<Rightarrow>
                                (let w5 = call WriteFragmentFill w4;
                                     txn2 = txn1\<lparr>pending :=
                                              pending txn1 @ writeFragmentFill_puts g\<rparr>
                                 in case writeFragmentFill_result g of
                                      Inl err \<Rightarrow>
                                        (Thrown err,
                                         (call (TxnAbort (stores txn2)) w5)
                                           \<lparr>storage := abort txn2 (storage w5)\<rparr>)
                                    | Inr gapResult \<Rightarrow>
                                        (let (gapEntries, h1) =
                                               alloc (created_entries gapResult) (heap w5);
                                             (gapUpdatedEntries, h2) =
                                               alloc (created_updatedEntries gapResult) h1;
                                             w6 = call (TxnComplete (stores txn2))
                                                    (w5\<lparr>heap := h2\<rparr>)
                                         in case gap_complete_throws g of
                                              Some err \<Rightarrow> (Thrown err, w6)
                                            | None \<Rightarrow>
                                                fillGap_committed aw meanwhile sched
                                                  extraGapFillChanges gapEntries
                                                  gapUpdatedEntries (fragments gapResult)
                                                  (w6\<lparr>storage :=
                                                        complete txn2 (storage w6)\<rparr>)))))))"

text \<open>All calls that a gap fill awaits inside its transaction, and those before, succeed.\<close>

definition gap_ok :: "gap_outcomes \<Rightarrow> FragmentEntry \<Rightarrow> bool" where
  "gap_ok g fragmentEntry =
     (\<not> edgeReached fragmentEntry \<and> (\<exists>response. messages_result g = Inr response) \<and>
      gap_readWriteTxn_throws g = None \<and> (\<exists>x. writeGapFill_result g = Inr x) \<and>
      (\<exists>gr. writeFragmentFill_result g = Inr gr) \<and> gap_complete_throws g = None)"

section \<open>Opening the timeline\<close>

text \<open>
  What the calls of \<^verbatim>\<open>openTimeline\<close> on the new timeline answer; \<open>loaded\<close> are the
  entries the timeline shows once \<^verbatim>\<open>load\<close> has returned.
\<close>

record open_outcomes =
  enableEncryption_throws :: "error option"
  load_throws :: "error option"
  loaded :: "addr list"

text \<open>The \<^verbatim>\<open>closeCallback\<close> that \<^verbatim>\<open>openTimeline\<close> gives to the timeline.\<close>

definition closeCallback :: "room \<Rightarrow> room" where
  "closeCallback w =
     (let w1 = w\<lparr>timeline := None\<rparr>
      in if roomEncryption w1 then call NotifyTimelineClosed w1 else w1)"

text \<open>
  The \<^verbatim>\<open>catch\<close> block: \<^verbatim>\<open>this._timeline.dispose()\<close>, which runs the close callback, then
  the error is thrown again. On a field that is \<^verbatim>\<open>null\<close> by now the call itself throws.
\<close>

definition openTimeline_catch :: "error \<Rightarrow> room \<Rightarrow> Timeline option outcome \<times> room" where
  "openTimeline_catch err w =
     (case timeline w of
        None \<Rightarrow> (Thrown (TypeError ''this._timeline is null''), w)
      | Some t \<Rightarrow> (Thrown err, closeCallback (call TimelineDispose w)))"

text \<open>
  \<^verbatim>\<open>openTimeline(log)\<close> up to the \<^verbatim>\<open>await\<close> of \<^verbatim>\<open>this._timeline.load\<close>, where it is
  \<open>Pending\<close> unless it has thrown.
\<close>

definition openTimeline :: "open_outcomes \<Rightarrow> room \<Rightarrow> Timeline option outcome \<times> room" where
  "openTimeline oo w0 =
     (let w1 = w0\<lparr>log := log w0 @ [(''id'', LString (roomId w0))]\<rparr>
      in case timeline w1 of
           Some t \<Rightarrow> (Thrown (Error ''not dealing with load race here for now''), w1)
         | None \<Rightarrow>
             (let w2 = w1\<lparr>timeline := Some \<lparr>remoteEntries = []\<rparr>\<rparr>
              in if roomEncryption w2
                 then (case enableEncryption_throws oo of
                         Some err \<Rightarrow> openTimeline_catch err (call EnableEncryption w2)
                       | None \<Rightarrow> (Pending, call TimelineLoad (call EnableEncryption w2)))
                 else (Pending, call TimelineLoad w2)))"

text \<open>The continuation, once \<^verbatim>\<open>load\<close> has answered.\<close>

definition openTimeline_loaded :: "open_outcomes \<Rightarrow> room \<Rightarrow> Timeline option outcome \<times> room" where
  "openTimeline_loaded oo w =
     (case load_throws oo of
        Some err \<Rightarrow> openTimeline_catch err w
      | None \<Rightarrow>
          (let w1 = w\<lparr>timeline := map_option (\<lambda>t. t\<lparr>remoteEntries := loaded oo\<rparr>) (timeline w)\<rparr>
           in (Returned (timeline w1), w1)))"

section \<open>Retrying decryption when a room key arrives\<close>

text \<open>
  What a read transaction finds for an event id, and what \<^verbatim>\<open>new EventEntry(storageEntry,
  fragmentIdComparer)\<close> makes of it.
\<close>

record StorageEntry =
  stored_id :: string
  stored_type :: string
  stored_event :: string
  stored_session :: "RoomKey option"

text \<open>
  Modelled from the spec: the constructor of \<^verbatim>\<open>EventEntry\<close> is missing from the sources.
  The entry wraps the stored event and carries no decryption result yet.
\<close>

definition new_EventEntry :: "StorageEntry \<Rightarrow> EventEntry" where
  "new_EventEntry se =
     \<lparr>entryId = stored_id se, eventType = stored_type se, event = stored_event se,
      session = stored_session se, decryptionState = undecrypted\<rparr>"

text \<open>
  What the calls awaited on the way to a retry batch answer. \<open>blocked\<close> stands for the
  test inside \<^verbatim>\<open>RoomEncryption.filterUndecryptedEventEntriesForKeys\<close>: whether an entry
  is undecrypted and waits for one of the keys.
\<close>

record retry_outcomes =
  retry_readTxn_throws :: "error option"
  getByEventId :: "string \<Rightarrow> error + StorageEntry option"
  getEventIdsForMissingKey :: "RoomKey \<Rightarrow> error + string list option"
  blocked :: "EventEntry \<Rightarrow> RoomKey list \<Rightarrow> bool"
  writeAndApplyData_result :: "error + bool"

text \<open>
  Modelled from the spec: \<^verbatim>\<open>filterUndecryptedEventEntriesForKeys(entries, keys)\<close> of the
  encryption capability is missing from the sources; it answers the entries among the
  given ones that are undecrypted and blocked on one of the keys.
\<close>

definition filterUndecryptedEventEntriesForKeys ::
    "retry_outcomes \<Rightarrow> EventEntry list \<Rightarrow> addr list \<Rightarrow> RoomKey list \<Rightarrow> addr list" where
  "filterUndecryptedEventEntriesForKeys ro h es roomKeys =
     filter (\<lambda>a. blocked ro (h ! a) roomKeys) es"

text \<open>
  The callbacks of \<^verbatim>\<open>_eventIdsToEntries\<close>, each resumed when its lookup has answered:
  an answer that is an entry is wrapped and pushed, a rejected lookup rejects the whole
  \<^verbatim>\<open>Promise.all\<close>.
\<close>

fun push_entries ::
    "(string \<Rightarrow> error + StorageEntry option) \<Rightarrow> string list \<Rightarrow> addr list \<Rightarrow> EventEntry list \<Rightarrow>
     error + addr list \<times> EventEntry list" where
  "push_entries get [] retryEntries h = Inr (retryEntries, h)"
| "push_entries get (eventId # ids) retryEntries h =
     (case get eventId of
        Inl err \<Rightarrow> Inl err
      | Inr None \<Rightarrow> push_entries get ids retryEntries h
      | Inr (Some storageEntry) \<Rightarrow>
          push_entries get ids (retryEntries @ [length h]) (h @ [new_EventEntry storageEntry]))"

text \<open>The stored entries that a list of lookups finds, in the order of the list.\<close>

fun found_entries :: "(string \<Rightarrow> error + StorageEntry option) \<Rightarrow> string list \<Rightarrow> StorageEntry list" where
  "found_entries get [] = []"
| "found_entries get (eventId # ids) =
     (case get eventId of
        Inr (Some storageEntry) \<Rightarrow> storageEntry # found_entries get ids
      | _ \<Rightarrow> found_entries get ids)"

text \<open>
  \<^verbatim>\<open>_eventIdsToEntries(eventIds, txn)\<close>. The lookups are issued in the order of
  \<open>eventIds\<close>; \<open>completion\<close> lists the positions in the order in which they answer.
\<close>

definition eventIdsToEntries ::
    "nat list \<Rightarrow> string list \<Rightarrow> (string \<Rightarrow> error + StorageEntry option) \<Rightarrow> EventEntry list \<Rightarrow>
     error + addr list \<times> EventEntry list" where
  "eventIdsToEntries completion eventIds get h =
     push_entries get (map (\<lambda>i. eventIds ! i) completion) [] h"

text \<open>
  \<^verbatim>\<open>_getAdditionalTimelineRetryEntries(otherRetryEntries, roomKeys)\<close>. Reading a property
  of a field that is \<^verbatim>\<open>null\<close> throws.
\<close>

definition getAdditionalTimelineRetryEntries ::
    "retry_outcomes \<Rightarrow> addr list \<Rightarrow> RoomKey list \<Rightarrow> room \<Rightarrow> error + addr list" where
  "getAdditionalTimelineRetryEntries ro otherRetryEntries roomKeys w =
     (if \<not> roomEncryption w then Inl (TypeError ''this._roomEncryption is null'')
      else case timeline w of
        None \<Rightarrow> Inl (TypeError ''this._timeline is null'')
      | Some t \<Rightarrow>
          (let retryTimelineEntries =
                 filterUndecryptedEventEntriesForKeys ro (heap w) (remoteEntries t) roomKeys;
               existingIds = fold (\<lambda>e ids. insert (entryId (heap w ! e)) ids) otherRetryEntries {}
           in Inr (filter (\<lambda>e. entryId (heap w ! e) \<notin> existingIds) retryTimelineEntries)))"

definition retry_stores :: "store_name list" where
  "retry_stores = [timelineEvents, inboundGroupSessions]"

text \<open>
  \<^verbatim>\<open>notifyRoomKey\<close> behind its first check, up to the value of \<^verbatim>\<open>retryEntries\<close> that is
  tested for being empty. \<open>meanwhile\<close> is what other code did while it awaited the read
  transaction and the lookups.
\<close>

definition notifyRoomKey_retryEntries ::
    "retry_outcomes \<Rightarrow> nat list \<Rightarrow> interference list \<Rightarrow> RoomKey \<Rightarrow> string list \<Rightarrow> room \<Rightarrow>
     (error + addr list) \<times> room" where
  "notifyRoomKey_retryEntries ro completion meanwhile roomKey eventIds w0 =
     (let w1 = call (ReadTxn retry_stores) w0
      in case retry_readTxn_throws ro of
           Some err \<Rightarrow> (Inl err, w1)
         | None \<Rightarrow>
             (case eventIdsToEntries completion eventIds (getByEventId ro) (heap w1) of
                Inl err \<Rightarrow> (Inl err, fold others meanwhile w1)
              | Inr (retryEntries, h) \<Rightarrow>
                  (let w2 = fold others meanwhile (w1\<lparr>heap := h\<rparr>)
                   in case timeline w2 of
                        None \<Rightarrow> (Inr retryEntries, w2)
                      | Some t \<Rightarrow>
                          (case getAdditionalTimelineRetryEntries ro retryEntries [roomKey] w2 of
                             Inl err \<Rightarrow> (Inl err, w2)
                           | Inr retryTimelineEntries \<Rightarrow>
                               (Inr (retryEntries @ retryTimelineEntries), w2)))))"

text \<open>
  \<^verbatim>\<open>notifyRoomKey\<close> from the point where \<^verbatim>\<open>decryptRequest.complete()\<close> has resolved.
  It is suspended once more, at \<^verbatim>\<open>await this._summary.writeAndApplyData(...)\<close>; \<open>later\<close>
  is what other code did to the room during that suspension.
\<close>

definition notifyRoomKey_decrypted ::
    "retry_outcomes \<Rightarrow> interference list \<Rightarrow> addr list \<Rightarrow> room \<Rightarrow> unit outcome \<times> room" where
  "notifyRoomKey_decrypted ro later retryEntries w =
     (let w1 = (case timeline w of
                  Some t \<Rightarrow> call (ReplaceEntries retryEntries) w
                | None \<Rightarrow> w);
          w2 = call WriteAndApplyData (call (ApplyTimelineEntries retryEntries) w1);
          w3 = fold others later w2
      in case writeAndApplyData_result ro of
           Inl err \<Rightarrow> (Thrown err, w3)
         | Inr changed \<Rightarrow> (Returned (), if changed then call EmitUpdate w3 else w3))"

text \<open>
  \<^verbatim>\<open>notifyRoomKey(roomKey, eventIds, log)\<close>. The schedule \<open>sched\<close> runs from the
  creation of the decryption request until \<^verbatim>\<open>notifyRoomKey\<close> is resumed from
  \<^verbatim>\<open>await decryptRequest.complete()\<close>.
\<close>

definition notifyRoomKey ::
    "retry_outcomes \<Rightarrow> outcomes \<Rightarrow> nat list \<Rightarrow> interference list \<Rightarrow> move list \<Rightarrow>
     interference list \<Rightarrow> RoomKey \<Rightarrow> string list \<Rightarrow> room \<Rightarrow> unit outcome \<times> room" where
  "notifyRoomKey ro aw completion meanwhile sched later roomKey eventIds w0 =
     (if \<not> roomEncryption w0 then (Returned (), w0)
      else case notifyRoomKey_retryEntries ro completion meanwhile roomKey eventIds w0 of
        (Inl err, w2) \<Rightarrow> (Thrown err, w2)
      | (Inr retryEntries, w2) \<Rightarrow>
          (if retryEntries = [] then (Returned (), w2)
           else case run aw SourceRetry retryEntries (undisposed sched)
                       (decryptEntries SourceRetry retryEntries
                          (Some \<lparr>stores = retry_stores, pending = []\<rparr>) w2) of
             (r, w3) \<Rightarrow>
               (case promise r of
                  Rejected err \<Rightarrow> (Thrown err, w3)
                | Resolved \<Rightarrow> notifyRoomKey_decrypted ro later retryEntries w3
                | _ \<Rightarrow> (Pending, w3))))"

text \<open>
  Modelled from the spec: \<^verbatim>\<open>EventEntry.clone()\<close> is missing from the sources; the clone
  is a new object with the fields of the original.
\<close>

definition clone_all :: "addr list \<Rightarrow> EventEntry list \<Rightarrow> addr list \<times> EventEntry list" where
  "clone_all es h = alloc (map (\<lambda>a. h ! a) es) h"

text \<open>
  The callbacks of \<^verbatim>\<open>newKeys.map\<close> in \<^verbatim>\<open>_getSyncRetryDecryptEntries\<close>: for each key the
  entries of the event ids that miss it, or \<^verbatim>\<open>undefined\<close>. \<open>completion\<close> gives the order
  in which the lookups for a key answer.
\<close>

fun entriesPerKey ::
    "retry_outcomes \<Rightarrow> (RoomKey \<Rightarrow> nat list) \<Rightarrow> RoomKey list \<Rightarrow> EventEntry list \<Rightarrow>
     error + addr list option list \<times> EventEntry list" where
  "entriesPerKey ro completion [] h = Inr ([], h)"
| "entriesPerKey ro completion (key # keys) h =
     (case getEventIdsForMissingKey ro key of
        Inl err \<Rightarrow> Inl err
      | Inr None \<Rightarrow>
          (case entriesPerKey ro completion keys h of
             Inl err \<Rightarrow> Inl err
           | Inr (rest, h') \<Rightarrow> Inr (None # rest, h'))
      | Inr (Some retryEventIds) \<Rightarrow>
          (case eventIdsToEntries (completion key) retryEventIds (getByEventId ro) h of
             Inl err \<Rightarrow> Inl err
           | Inr (found, h1) \<Rightarrow>
               (case entriesPerKey ro completion keys h1 of
                  Inl err \<Rightarrow> Inl err
                | Inr (rest, h') \<Rightarrow> Inr (Some found # rest, h'))))"

text \<open>\<^verbatim>\<open>_getSyncRetryDecryptEntries(newKeys, roomEncryption, txn)\<close>\<close>

definition getSyncRetryDecryptEntries ::
    "retry_outcomes \<Rightarrow> (RoomKey \<Rightarrow> nat list) \<Rightarrow> interference list \<Rightarrow> RoomKey list \<Rightarrow> room \<Rightarrow>
     (error + addr list) \<times> room" where
  "getSyncRetryDecryptEntries ro completion meanwhile newKeys w0 =
     (case entriesPerKey ro completion newKeys (heap w0) of
        Inl err \<Rightarrow> (Inl err, fold others meanwhile w0)
      | Inr (perKey, h) \<Rightarrow>
          (let w1 = fold others meanwhile (w0\<lparr>heap := h\<rparr>);
               retryEntries =
                 fold (\<lambda>found allEntries.
                         case found of Some es \<Rightarrow> allEntries @ es | None \<Rightarrow> allEntries)
                   perKey []
           in case timeline w1 of
                None \<Rightarrow> (Inr retryEntries, w1)
              | Some t \<Rightarrow>
                  (case getAdditionalTimelineRetryEntries ro retryEntries newKeys w1 of
                     Inl err \<Rightarrow> (Inl err, w1)
                   | Inr retryTimelineEntries \<Rightarrow>
                       (let (retryTimelineEntriesCopies, h') =
                              clone_all retryTimelineEntries (heap w1)
                        in (Inr (retryEntries @ retryTimelineEntriesCopies),
                            w1\<lparr>heap := h'\<rparr>)))))"

text \<open>The entries an open timeline shows, none when no timeline is open.\<close>

definition timeline_entries :: "room \<Rightarrow> addr list" where
  "timeline_entries w = (case timeline w of None \<Rightarrow> [] | Some t \<Rightarrow> remoteEntries t)"

fun prepare_effect :: "effect \<Rightarrow> bool" where
  "prepare_effect (PrepareDecryptAll evs src) = True"
| "prepare_effect e = False"

fun replace_effect :: "effect \<Rightarrow> bool" where
  "replace_effect (ReplaceEntries es) = True"
| "replace_effect e = False"

section \<open>Example inputs\<close>

definition example_fragment :: FragmentEntry where
  "example_fragment = \<lparr>fragmentId = 3, direction = Backward, token = ''t0'', edgeReached = False\<rparr>"

definition example_gap :: gap_outcomes where
  "example_gap =
     \<lparr>messages_result = Inr [''event 2''], gap_readWriteTxn_throws = None,
      writeGapFill_puts = [(pendingEvents, ''echo'')], writeGapFill_result = Inr None,
      writeFragmentFill_puts = [(timelineEvents, ''$e2''), (timelineFragments, ''3'')],
      writeFragmentFill_result =
        Inr \<lparr>created_entries = [example_entry\<lparr>entryId := ''$e2''\<rparr>],
             created_updatedEntries = [], fragments = [3]\<rparr>,
      gap_complete_throws = None\<rparr>"

definition fragment_fill_fails :: gap_outcomes where
  "fragment_fill_fails =
     example_gap\<lparr>writeFragmentFill_result := Inl (Error ''quota exceeded'')\<rparr>"

definition example_open :: open_outcomes where
  "example_open = \<lparr>enableEncryption_throws = None, load_throws = None, loaded = [0]\<rparr>"

definition example_retry :: retry_outcomes where
  "example_retry =
     \<lparr>retry_readTxn_throws = None,
      getByEventId = (\<lambda>eventId.
        if eventId = ''$e1''
        then Inr (Some \<lparr>stored_id = ''$e1'', stored_type = ''m.room.encrypted'',
                        stored_event = ''ciphertext 1'',
                        stored_session = Some \<lparr>senderKey = ''curve'', sessionId = ''s1''\<rparr>\<rparr>)
        else Inr None),
      getEventIdsForMissingKey = (\<lambda>key. Inr (Some [''$e1''])),
      blocked = (\<lambda>e keys. decryptionState e \<noteq> decrypted \<and> session e \<in> Some ` set keys),
      writeAndApplyData_result = Inr True\<rparr>"

definition example_key :: RoomKey where
  "example_key = \<lparr>senderKey = ''curve'', sessionId = ''s1''\<rparr>"

definition example_room2 :: room where
  "example_room2 =
     example_room\<lparr>heap := [example_entry, example_entry\<lparr>entryId := ''$e2''\<rparr>],
                  timeline := Some \<lparr>remoteEntries = [0, 1]\<rparr>\<rparr>"

section \<open>Properties of the state event iteration\<close>

lemma iterate_timeline_filter:
  "iterate_timeline callback evs s =
   iterate_state callback (filter (\<lambda>ev. typeof_string (state_key ev)) evs) s"
  by (induction evs arbitrary: s) (auto split: sum.splits)

lemma iterate_state_append:
  "iterate_state callback (xs @ ys) s =
   (case iterate_state callback xs s of
      Inl x \<Rightarrow> Inl x
    | Inr s' \<Rightarrow> iterate_state callback ys s')"
  by (induction xs arbitrary: s) (auto split: sum.splits)

lemma iterate_state_record:
  "iterate_state record_call evs calls = Inr (calls @ evs)"
  by (induction evs arbitrary: calls) (auto simp: record_call_def)

lemma iterateResponseStateEvents_sequence:
  "iterateResponseStateEvents roomResponse callback s =
   iterate_state callback
     (events_of (state roomResponse) @
      filter (\<lambda>ev. typeof_string (state_key ev)) (events_of (timeline_section roomResponse))) s"
  by (auto simp: iterateResponseStateEvents_def events_of_def iterate_state_append
        iterate_timeline_filter split: option.splits sum.splits)

text \<open>
  Claim C10. For every room response, the callback is invoked first on every event of
  the state section in array order and then on exactly the timeline events whose
  \<^verbatim>\<open>state_key\<close> is a string, in array order: with any callback the run is the run of the
  callback over that one sequence, and the recording callback returns that sequence.
  A response with neither section invokes the callback zero times.
\<close>

theorem iterateResponseStateEvents_calls:
  "iterateResponseStateEvents roomResponse callback s =
     iterate_state callback
       (events_of (state roomResponse) @
        filter (\<lambda>ev. typeof_string (state_key ev)) (events_of (timeline_section roomResponse))) s
   \<and> iterateResponseStateEvents roomResponse record_call [] =
     Inr (events_of (state roomResponse) @
          filter (\<lambda>ev. typeof_string (state_key ev)) (events_of (timeline_section roomResponse)))
   \<and> iterateResponseStateEvents \<lparr>state = None, timeline_section = None\<rparr> record_call [] = Inr []
   \<and> iterateResponseStateEvents \<lparr>state = None, timeline_section = None\<rparr> callback s = Inr s"
  by (simp add: iterateResponseStateEvents_sequence iterate_state_record)
     (simp add: events_of_def section_events_def)

section \<open>Properties of the decryption request\<close>

lemma txn_effects_append [simp]: "txn_effects (xs @ ys) = txn_effects xs @ txn_effects ys"
  by (simp add: txn_effects_def)

lemma txn_effects_simps [simp]:
  "txn_effects [] = []"
  "txn_effects (e # xs) = (if txn_effect e then e # txn_effects xs else txn_effects xs)"
  by (simp_all add: txn_effects_def)

lemma others_keeps [simp]:
  "storage (others i w) = storage w" "heap (others i w) = heap w"
  "effects (others i w) = effects w"
  by (cases i; simp)+

lemma call_simps [simp]:
  "storage (call e w) = storage w" "heap (call e w) = heap w"
  "effects (call e w) = effects w @ [e]" "timeline (call e w) = timeline w"
  "observedEvents (call e w) = observedEvents w" "roomEncryption (call e w) = roomEncryption w"
  by (simp_all add: call_def)

lemma step_cancelled_inert:
  assumes "cancelled r" and "before_write (promise r) \<or> settled (promise r)"
    and "step aw src es m (r, w) = (r', w')"
  shows "cancelled r' \<and> (before_write (promise r') \<or> settled (promise r')) \<and>
         (promise r' = promise r \<or> settled (promise r')) \<and>
         storage w' = storage w \<and> heap w' = heap w \<and>
         txn_effects (effects w') = txn_effects (effects w)"
  using assms
  by (cases m; cases "promise r")
     (auto simp: dispose_def prepare_step_def split: option.splits sum.splits)

lemma pre_ok_start: "pre_ok aw w0 (decryptEntries src es itxn w0)"
  by (auto simp: pre_ok_def decryptEntries_def prepare_step_def Let_def split: option.splits)

lemma step_pre_ok:
  assumes "pre_ok aw w0 (r, w)"
  shows "pre_ok aw w0 (step aw src es m (r, w)) \<or> (\<exists>b. write_ok aw es b w0 (step aw src es m (r, w)))"
  using assms
  by (cases m; cases "promise r")
     (auto simp: pre_ok_def write_ok_def dispose_def prepare_step_def Let_def split: option.splits sum.splits)

lemma step_write_ok:
  assumes "write_ok aw es b w0 (r, w)"
  shows "write_ok aw es b w0 (step aw src es m (r, w))"
  using assms
  by (cases m; cases "promise r")
     (auto simp: write_ok_def dispose_def Let_def the_txn_def verified_def abort_def complete_def split: option.splits sum.splits)


lemma run_append: "run aw src es (xs @ ys) c = run aw src es ys (run aw src es xs c)"
  by (induction xs arbitrary: c) auto

lemma run_cancelled_inert:
  assumes "cancelled r" and "before_write (promise r) \<or> settled (promise r)"
    and "run aw src es ms (r, w) = (r', w')"
  shows "cancelled r' \<and> (before_write (promise r') \<or> settled (promise r')) \<and>
         (promise r' = promise r \<or> settled (promise r')) \<and>
         storage w' = storage w \<and> heap w' = heap w \<and>
         txn_effects (effects w') = txn_effects (effects w)"
  using assms
proof (induction ms arbitrary: r w)
  case Nil
  then show ?case by simp
next
  case (Cons m ms)
  obtain r1 w1 where s: "step aw src es m (r, w) = (r1, w1)"
    by (cases "step aw src es m (r, w)")
  from step_cancelled_inert [OF Cons.prems(1,2) s]
  have a: "cancelled r1" "before_write (promise r1) \<or> settled (promise r1)"
    "promise r1 = promise r \<or> settled (promise r1)"
    "storage w1 = storage w" "heap w1 = heap w"
    "txn_effects (effects w1) = txn_effects (effects w)"
    by simp_all
  from Cons.prems(3) s have "run aw src es ms (r1, w1) = (r', w')" by simp
  from Cons.IH [OF a(1,2) this] a show ?case by auto
qed

lemma step_settled:
  assumes "settled (promise r)" and "step aw src es m (r, w) = (r', w')"
  shows "promise r' = promise r"
  using assms by (cases m; cases "promise r") (auto simp: dispose_def)

lemma run_settled:
  assumes "settled (promise r)" and "run aw src es ms (r, w) = (r', w')"
  shows "promise r' = promise r"
  using assms
proof (induction ms arbitrary: r w)
  case Nil
  then show ?case by simp
next
  case (Cons m ms)
  obtain r1 w1 where s: "step aw src es m (r, w) = (r1, w1)"
    by (cases "step aw src es m (r, w)")
  from step_settled [OF Cons.prems(1) s] have p: "promise r1 = promise r" .
  with Cons.prems(1) have "settled (promise r1)" by simp
  from Cons.IH [OF this] Cons.prems(2) s p show ?case by simp
qed

lemma resume_cancelled_settles:
  assumes "cancelled r" and "before_write (promise r) \<or> settled (promise r)"
  shows "settled (promise (fst (step aw src es Resume (r, w))))"
  using assms
  by (cases "promise r") (auto simp: prepare_step_def split: option.splits sum.splits)

lemma run_cancelled_resumed:
  assumes "cancelled r" and "before_write (promise r) \<or> settled (promise r)"
    and "run aw src es ms (r, w) = (r', w')" and "Resume \<in> set ms"
  shows "settled (promise r')"
  using assms
proof (induction ms arbitrary: r w)
  case Nil
  then show ?case by simp
next
  case (Cons m ms)
  obtain r1 w1 where s: "step aw src es m (r, w) = (r1, w1)"
    by (cases "step aw src es m (r, w)")
  from step_cancelled_inert [OF Cons.prems(1,2) s]
  have a: "cancelled r1" "before_write (promise r1) \<or> settled (promise r1)" by simp_all
  from Cons.prems(3) s have rest: "run aw src es ms (r1, w1) = (r', w')" by simp
  show ?case
  proof (cases "m = Resume")
    case True
    with resume_cancelled_settles [OF Cons.prems(1,2), of aw src es w] s
    have st: "settled (promise r1)" by simp
    from run_settled [OF st rest] st show ?thesis by simp
  next
    case False
    with Cons.prems(4) have "Resume \<in> set ms" by auto
    from Cons.IH [OF a rest this] show ?thesis .
  qed
qed

lemma run_write_ok:
  assumes "write_ok aw es b w0 c"
  shows "write_ok aw es b w0 (run aw src es ms c)"
  using assms
proof (induction ms arbitrary: c)
  case Nil
  then show ?case by simp
next
  case (Cons m ms)
  obtain r w where c: "c = (r, w)" by (cases c)
  with Cons.prems step_write_ok have "write_ok aw es b w0 (step aw src es m c)" by simp
  from Cons.IH [OF this] show ?case by simp
qed

lemma run_pre_ok:
  assumes "pre_ok aw w0 c"
  shows "pre_ok aw w0 (run aw src es ms c) \<or> (\<exists>b. write_ok aw es b w0 (run aw src es ms c))"
  using assms
proof (induction ms arbitrary: c)
  case Nil
  then show ?case by simp
next
  case (Cons m ms)
  obtain r w where c: "c = (r, w)" by (cases c)
  from step_pre_ok [of aw w0 r w src es m] Cons.prems c
  consider "pre_ok aw w0 (step aw src es m c)" | b where "write_ok aw es b w0 (step aw src es m c)"
    by auto
  then show ?case
  proof cases
    case 1
    from Cons.IH [OF this] show ?thesis by simp
  next
    case 2
    from run_write_ok [OF this] show ?thesis by auto
  qed
qed

lemma reachable:
  assumes "run aw src es pre (decryptEntries src es itxn w0) = (r, w)"
  shows "pre_ok aw w0 (r, w) \<or> (\<exists>b. write_ok aw es b w0 (r, w))"
proof -
  have "pre_ok aw w0 (decryptEntries src es itxn w0)"
    by (rule pre_ok_start)
  from run_pre_ok [OF this, where src = src and es = es and ms = pre] assms
  show ?thesis by simp
qed

lemma reachable_before_write:
  assumes "run aw src es pre (decryptEntries src es itxn w0) = (r, w)"
    and "before_write (promise r)"
  shows "pre_ok aw w0 (r, w)"
  using reachable [OF assms(1)] assms(2)
  by (cases "promise r") (auto simp: write_ok_def)

lemma cancelled_before_write_run:
  assumes "run aw src es pre (decryptEntries src es itxn w0) = (r, w)"
    and "before_write (promise r)"
    and "run aw src es post (step aw src es Dispose (r, w)) = (r', w')"
  shows "storage w' = storage w0" and "heap w' = heap w0"
    and "txn_effects (effects w') = txn_effects (effects w0)"
    and "promise r' = promise r \<or> settled (promise r')"
    and "Resume \<in> set post \<longrightarrow> settled (promise r')"
proof -
  from reachable_before_write [OF assms(1,2)] have pre: "pre_ok aw w0 (r, w)" .
  obtain r1 w1 where d: "step aw src es Dispose (r, w) = (r1, w1)"
    by (cases "step aw src es Dispose (r, w)")
  then have c1: "cancelled r1" and p1: "promise r1 = promise r"
    and k1: "storage w1 = storage w" "heap w1 = heap w"
      "txn_effects (effects w1) = txn_effects (effects w)"
    by (auto simp: dispose_def split: option.splits)
  from p1 assms(2) have b1: "before_write (promise r1) \<or> settled (promise r1)" by simp
  from assms(3) d have rest: "run aw src es post (r1, w1) = (r', w')" by simp
  from run_cancelled_inert [OF c1 b1 rest] k1 p1 pre
  show "storage w' = storage w0" "heap w' = heap w0"
    "txn_effects (effects w') = txn_effects (effects w0)"
    "promise r' = promise r \<or> settled (promise r')"
    by (auto simp: pre_ok_def)
  show "Resume \<in> set post \<longrightarrow> settled (promise r')"
    using run_cancelled_resumed [OF c1 b1 rest] by blast
qed

lemmas example_defs = example_start_def decryptEntries_def write_fails_def example_outcomes_def
  example_room_def example_entry_def prepare_step_def call_def encrypted_events_def
  EVENT_ENCRYPTED_TYPE_def write_stores_def abort_def complete_def applyToEntries_def
  dispose_def the_txn_def

subsection \<open>Cancellation before the write transaction\<close>

text \<open>
  Claim C1. A request started by \<^verbatim>\<open>_decryptEntries\<close> runs under any schedule \<open>pre\<close> to
  one of the three suspensions before \<^verbatim>\<open>readWriteTxn\<close> is called (the read transaction,
  the preparation of the plan, its execution) and is disposed there. Whatever follows,
  nothing is stored, every entry object is as it was (the decryption state of the batch
  with it), no call opens or uses a write transaction, and the function never passes
  another suspension: once it is resumed, the promise is settled.
\<close>

theorem cancel_before_write_transaction:
  assumes "run aw src es pre (decryptEntries src es itxn w0) = (r, w)"
    and "before_write (promise r)"
    and "run aw src es post (step aw src es Dispose (r, w)) = (r', w')"
  shows "storage w' = storage w0 \<and> heap w' = heap w0 \<and>
         map (\<lambda>a. decryptionState (heap w' ! a)) es = map (\<lambda>a. decryptionState (heap w0 ! a)) es \<and>
         txn_effects (effects w') = txn_effects (effects w0) \<and>
         (promise r' = promise r \<or> settled (promise r')) \<and>
         (Resume \<in> set post \<longrightarrow> settled (promise r'))"
  using cancelled_before_write_run [OF assms] by simp

theorem cancel_before_write_transaction_witness:
  "before_write (promise (fst (run example_outcomes SourceTimeline [0] [Resume] example_start))) \<and>
   storage (snd (run example_outcomes SourceTimeline [0] [Resume, Resume]
      (step example_outcomes SourceTimeline [0] Dispose
        (run example_outcomes SourceTimeline [0] [Resume] example_start)))) = [] \<and>
   heap (snd (run example_outcomes SourceTimeline [0] [Resume, Resume]
      (step example_outcomes SourceTimeline [0] Dispose
        (run example_outcomes SourceTimeline [0] [Resume] example_start)))) = [example_entry] \<and>
   txn_effects (effects (snd (run example_outcomes SourceTimeline [0] [Resume, Resume]
      (step example_outcomes SourceTimeline [0] Dispose
        (run example_outcomes SourceTimeline [0] [Resume] example_start))))) = [] \<and>
   settled (promise (fst (run example_outcomes SourceTimeline [0] [Resume, Resume]
      (step example_outcomes SourceTimeline [0] Dispose
        (run example_outcomes SourceTimeline [0] [Resume] example_start)))))"
proof -
  let ?c = "run example_outcomes SourceTimeline [0] [Resume] example_start"
  let ?c' = "run example_outcomes SourceTimeline [0] [Resume, Resume]
      (step example_outcomes SourceTimeline [0] Dispose ?c)"
  have a: "run example_outcomes SourceTimeline [0] [Resume]
      (decryptEntries SourceTimeline [0] None example_room) = (fst ?c, snd ?c)"
    by (simp add: example_start_def)
  have bw: "before_write (promise (fst ?c))" by (simp add: example_defs)
  have b: "run example_outcomes SourceTimeline [0] [Resume, Resume]
      (step example_outcomes SourceTimeline [0] Dispose (fst ?c, snd ?c)) = (fst ?c', snd ?c')"
    by simp
  from cancel_before_write_transaction [OF a bw b] bw
  show ?thesis by (simp add: example_room_def)
qed

subsection \<open>Cancellation while a plan is held\<close>

text \<open>
  Claim C7. While the function is suspended at \<^verbatim>\<open>r.preparation.decrypt()\<close> the request
  holds the plan that \<^verbatim>\<open>prepareDecryptAll\<close> answered. Disposing the request there, after
  any schedule \<open>pre\<close>, sets the flag and calls \<^verbatim>\<open>dispose()\<close> on exactly that plan; under
  any schedule \<open>post\<close> nothing is stored afterwards, no entry changes and no call opens
  or uses a write transaction.
\<close>

theorem dispose_held_preparation:
  assumes "run aw src es pre (decryptEntries src es itxn w0) = (r, w)"
    and "promise r = AwaitDecrypt"
    and "run aw src es post (step aw src es Dispose (r, w)) = (r', w')"
  shows "\<exists>p. preparation r = Some p \<and> prepareDecryptAll_result aw = Inr p \<and>
             step aw src es Dispose (r, w) =
               (r\<lparr>cancelled := True\<rparr>, call (PreparationDispose p) w) \<and>
             storage w' = storage w0 \<and> heap w' = heap w0 \<and>
             txn_effects (effects w') = txn_effects (effects w0) \<and>
             (promise r' = AwaitDecrypt \<or> settled (promise r'))"
proof -
  from assms(2) have bw: "before_write (promise r)" by simp
  from reachable_before_write [OF assms(1) bw] assms(2)
  obtain p where p: "preparation r = Some p" "prepareDecryptAll_result aw = Inr p"
    by (auto simp: pre_ok_def)
  from p(1) have d: "step aw src es Dispose (r, w) =
      (r\<lparr>cancelled := True\<rparr>, call (PreparationDispose p) w)"
    by (simp add: dispose_def)
  from cancelled_before_write_run [OF assms(1) bw assms(3)] assms(2) p d
  show ?thesis by auto
qed

theorem dispose_held_preparation_witness:
  "promise (fst (run example_outcomes SourceTimeline [0] [Resume, Resume] example_start)) =
     AwaitDecrypt \<and>
   preparation (fst (run example_outcomes SourceTimeline [0] [Resume, Resume] example_start)) =
     Some 7 \<and>
   effects (snd (step example_outcomes SourceTimeline [0] Dispose
     (run example_outcomes SourceTimeline [0] [Resume, Resume] example_start))) =
     [ReadTxn [inboundGroupSessions], PrepareDecryptAll [''ciphertext 1''] SourceTimeline,
      PreparationDecrypt 7, PreparationDispose 7] \<and>
   storage (snd (run example_outcomes SourceTimeline [0] [Resume, Resume]
     (step example_outcomes SourceTimeline [0] Dispose
       (run example_outcomes SourceTimeline [0] [Resume, Resume] example_start)))) = [] \<and>
   txn_effects (effects (snd (run example_outcomes SourceTimeline [0] [Resume, Resume]
     (step example_outcomes SourceTimeline [0] Dispose
       (run example_outcomes SourceTimeline [0] [Resume, Resume] example_start))))) = []"
proof -
  let ?c = "run example_outcomes SourceTimeline [0] [Resume, Resume] example_start"
  let ?c' = "run example_outcomes SourceTimeline [0] [Resume, Resume]
     (step example_outcomes SourceTimeline [0] Dispose ?c)"
  have a: "run example_outcomes SourceTimeline [0] [Resume, Resume]
      (decryptEntries SourceTimeline [0] None example_room) = (fst ?c, snd ?c)"
    by (simp add: example_start_def)
  have at: "promise (fst ?c) = AwaitDecrypt" by (simp add: example_defs)
  have b: "run example_outcomes SourceTimeline [0] [Resume, Resume]
     (step example_outcomes SourceTimeline [0] Dispose (fst ?c, snd ?c)) = (fst ?c', snd ?c')"
    by simp
  have e: "effects (snd (step example_outcomes SourceTimeline [0] Dispose ?c)) =
     [ReadTxn [inboundGroupSessions], PrepareDecryptAll [''ciphertext 1''] SourceTimeline,
      PreparationDecrypt 7, PreparationDispose 7]"
    "preparation (fst ?c) = Some 7"
    by (simp_all add: example_defs)
  from dispose_held_preparation [OF a at b] at e
  show ?thesis by (simp add: example_defs)
qed

subsection \<open>Errors inside the write transaction\<close>

text \<open>
  Claim C3. A request has reached the write step after any schedule \<open>pre\<close>. If
  \<^verbatim>\<open>changes.write\<close> or \<^verbatim>\<open>decryption.verifySenders\<close> throws \<open>err\<close>, resuming the function
  calls \<^verbatim>\<open>abort()\<close> on the write transaction and the promise is rejected with \<open>err\<close>;
  whatever follows, nothing is stored, no entry changes, and neither \<^verbatim>\<open>complete()\<close>
  nor \<^verbatim>\<open>applyToEntries\<close> is ever called. And in any state a request can reach, the
  entries have been touched or something has been stored only if the promise resolved
  after \<^verbatim>\<open>complete()\<close> succeeded, with \<^verbatim>\<open>applyToEntries\<close> called right after it.
\<close>

theorem write_error_aborts_transaction:
  assumes "run aw src es pre (decryptEntries src es itxn w0) = (r, w)"
    and "effects w0 = []"
    and "run aw src es post (step aw src es Resume (r, w)) = (r', w')"
  shows "((\<exists>b. promise r = AwaitWrite b t) \<and> write_throws aw = Some err \<or>
          promise r = AwaitVerifySenders t \<and> verifySenders_throws aw = Some err \<longrightarrow>
            effects (snd (step aw src es Resume (r, w))) = effects w @ [TxnAbort (stores t)] \<and>
            promise r' = Rejected err \<and> storage w' = storage w0 \<and> heap w' = heap w0 \<and>
            (\<forall>s. TxnComplete s \<notin> set (effects w')) \<and> ApplyToEntries es \<notin> set (effects w')) \<and>
         (ApplyToEntries es \<in> set (effects w) \<or> heap w \<noteq> heap w0 \<or> storage w \<noteq> storage w0 \<longrightarrow>
            promise r = Resolved \<and> write_throws aw = None \<and> complete_throws aw = None \<and>
            (\<exists>b xs ys. storage w = storage w0 @ [the_txn aw b] \<and>
               txn_effects (effects w) =
                 xs @ [TxnComplete (write_stores b), ApplyToEntries es] @ ys))"
proof -
  from reachable [OF assms(1)]
  have inv: "pre_ok aw w0 (r, w) \<or> (\<exists>b. write_ok aw es b w0 (r, w))" .
  have first: "effects (snd (step aw src es Resume (r, w))) = effects w @ [TxnAbort (stores t)] \<and>
            promise r' = Rejected err \<and> storage w' = storage w0 \<and> heap w' = heap w0 \<and>
            (\<forall>s. TxnComplete s \<notin> set (effects w')) \<and> ApplyToEntries es \<notin> set (effects w')"
    if fails: "(\<exists>b. promise r = AwaitWrite b t) \<and> write_throws aw = Some err \<or>
          promise r = AwaitVerifySenders t \<and> verifySenders_throws aw = Some err"
  proof -
    from fails inv obtain b where wo: "write_ok aw es b w0 (r, w)"
      by (auto simp: pre_ok_def)
    obtain r1 w1 where s: "step aw src es Resume (r, w) = (r1, w1)"
      by (cases "step aw src es Resume (r, w)")
    from fails s have a: "effects w1 = effects w @ [TxnAbort (stores t)]" "promise r1 = Rejected err"
      by (auto simp: Let_def)
    from step_write_ok [OF wo, of src Resume] s have wo1: "write_ok aw es b w0 (r1, w1)" by simp
    from run_write_ok [OF wo1, of src post] assms(3) s
    have wo': "write_ok aw es b w0 (r', w')" by simp
    from a(2) have "settled (promise r1)" by simp
    from run_settled [OF this] assms(3) s a(2) have p': "promise r' = Rejected err" by simp
    have tx: "e \<in> set (effects w') \<Longrightarrow> txn_effect e \<Longrightarrow> e \<in> set (txn_effects (effects w'))" for e
      by (simp add: txn_effects_def)
    from wo' p' fails wo assms(2)
    have "storage w' = storage w0" "heap w' = heap w0"
      "\<forall>s. TxnComplete s \<notin> set (txn_effects (effects w'))"
      "ApplyToEntries es \<notin> set (txn_effects (effects w'))"
      by (auto simp: write_ok_def)
    with tx a s p' show ?thesis by fastforce
  qed
  have second: "promise r = Resolved \<and> write_throws aw = None \<and> complete_throws aw = None \<and>
            (\<exists>b xs ys. storage w = storage w0 @ [the_txn aw b] \<and>
               txn_effects (effects w) =
                 xs @ [TxnComplete (write_stores b), ApplyToEntries es] @ ys)"
    if ch: "ApplyToEntries es \<in> set (effects w) \<or> heap w \<noteq> heap w0 \<or> storage w \<noteq> storage w0"
  proof -
    have tx: "ApplyToEntries es \<in> set (effects w) \<Longrightarrow> ApplyToEntries es \<in> set (txn_effects (effects w))"
      by (simp add: txn_effects_def)
    from inv ch tx assms(2) obtain b where wo: "write_ok aw es b w0 (r, w)"
      by (auto simp: pre_ok_def)
    with ch tx assms(2) have res: "promise r = Resolved"
      by (cases "promise r") (auto simp: write_ok_def verified_def split: if_splits)
    with wo assms(2) show ?thesis
      apply (clarsimp simp: write_ok_def)
      apply (rule_tac x = b in exI)
      apply simp
      apply (rule_tac x = "[ReadWriteTxn (write_stores b), ChangesWrite] @ verified b" in exI)
      apply auto
      done
  qed
  from first second show ?thesis by blast
qed

theorem write_error_aborts_transaction_witness:
  "promise (fst (run write_fails SourceTimeline [0] [Resume, Resume, Resume, Resume]
      example_start)) =
     AwaitWrite True \<lparr>stores = [groupSessionDecryptions, deviceIdentities], pending = []\<rparr> \<and>
   write_throws write_fails = Some (Error ''write failed'') \<and>
   promise (fst (run write_fails SourceTimeline [0] [Dispose, Resume]
     (step write_fails SourceTimeline [0] Resume
       (run write_fails SourceTimeline [0] [Resume, Resume, Resume, Resume] example_start)))) =
     Rejected (Error ''write failed'') \<and>
   storage (snd (run write_fails SourceTimeline [0] [Dispose, Resume]
     (step write_fails SourceTimeline [0] Resume
       (run write_fails SourceTimeline [0] [Resume, Resume, Resume, Resume] example_start)))) =
     [] \<and>
   heap (snd (run write_fails SourceTimeline [0] [Dispose, Resume]
     (step write_fails SourceTimeline [0] Resume
       (run write_fails SourceTimeline [0] [Resume, Resume, Resume, Resume] example_start)))) =
     [example_entry] \<and>
   ApplyToEntries [0] \<in> set (effects (snd (run example_outcomes SourceTimeline [0]
     [Resume, Resume, Resume, Resume, Resume, Resume, Resume] example_start))) \<and>
   promise (fst (run example_outcomes SourceTimeline [0]
     [Resume, Resume, Resume, Resume, Resume, Resume, Resume] example_start)) = Resolved \<and>
   complete_throws example_outcomes = None"
proof -
  let ?c = "run write_fails SourceTimeline [0] [Resume, Resume, Resume, Resume] example_start"
  let ?c' = "run write_fails SourceTimeline [0] [Dispose, Resume]
     (step write_fails SourceTimeline [0] Resume ?c)"
  let ?t = "\<lparr>stores = [groupSessionDecryptions, deviceIdentities], pending = []\<rparr>"
  let ?d = "run example_outcomes SourceTimeline [0]
     [Resume, Resume, Resume, Resume, Resume, Resume, Resume] example_start"
  have fresh: "effects example_room = []" by (simp add: example_room_def)
  have a: "run write_fails SourceTimeline [0] [Resume, Resume, Resume, Resume]
      (decryptEntries SourceTimeline [0] None example_room) = (fst ?c, snd ?c)"
    by (simp add: example_start_def)
  have b: "run write_fails SourceTimeline [0] [Dispose, Resume]
     (step write_fails SourceTimeline [0] Resume (fst ?c, snd ?c)) = (fst ?c', snd ?c')"
    by simp
  have at: "promise (fst ?c) = AwaitWrite True ?t"
    "write_throws write_fails = Some (Error ''write failed'')"
    by (simp_all add: example_defs)
  have d: "run example_outcomes SourceTimeline [0]
      [Resume, Resume, Resume, Resume, Resume, Resume, Resume]
      (decryptEntries SourceTimeline [0] None example_room) = (fst ?d, snd ?d)"
    by (simp add: example_start_def)
  have d': "run example_outcomes SourceTimeline [0] []
     (step example_outcomes SourceTimeline [0] Resume (fst ?d, snd ?d)) =
     (fst (step example_outcomes SourceTimeline [0] Resume ?d),
      snd (step example_outcomes SourceTimeline [0] Resume ?d))"
    by simp
  have ap: "ApplyToEntries [0] \<in> set (effects (snd ?d))" by (simp add: example_defs)
  from write_error_aborts_transaction [OF a fresh b, of ?t "Error ''write failed''"] at
  have first: "promise (fst ?c') = Rejected (Error ''write failed'')"
    "storage (snd ?c') = storage example_room" "heap (snd ?c') = heap example_room"
    by auto
  from write_error_aborts_transaction [OF d fresh d'] ap
  have second: "promise (fst ?d) = Resolved" "complete_throws example_outcomes = None"
    by auto
  from first second at ap show ?thesis by (simp add: example_room_def)
qed

subsection \<open>Sender verification\<close>

lemma resume_opens_write_txn:
  assumes "pre_ok aw w0 (r, w)" and "promise r = AwaitDecrypt" and "\<not> cancelled r"
    and "decrypt_throws aw = None"
  shows "write_ok aw es (timeline w \<noteq> None) w0 (step aw src es Resume (r, w))"
    and "effects (snd (step aw src es Resume (r, w))) =
           effects w @ [ReadWriteTxn (write_stores (timeline w \<noteq> None))]"
  using assms by (auto simp: pre_ok_def write_ok_def Let_def)

text \<open>
  Claim C5, as stated, fails: with the timeline open when the write transaction is
  opened, a throwing \<^verbatim>\<open>changes.write\<close> ends the request before senders are verified.
\<close>

theorem verifySenders_skipped_counterexample:
  "timeline example_room \<noteq> None \<and>
   promise (fst (run write_fails SourceTimeline [0] [Resume, Resume, Resume, Resume, Resume]
                  example_start)) =
     Rejected (Error ''write failed'') \<and>
   effects (snd (run write_fails SourceTimeline [0] [Resume, Resume, Resume, Resume, Resume]
                  example_start)) =
     [ReadTxn [inboundGroupSessions], PrepareDecryptAll [''ciphertext 1''] SourceTimeline,
      PreparationDecrypt 7, ReadWriteTxn [groupSessionDecryptions, deviceIdentities],
      ChangesWrite, TxnAbort [groupSessionDecryptions, deviceIdentities]] \<and>
   VerifySenders \<notin> set (effects (snd (run write_fails SourceTimeline [0]
                  [Resume, Resume, Resume, Resume, Resume] example_start)))"
  by (simp add: example_defs)

text \<open>
  Claim C5, amended. The function is resumed from \<^verbatim>\<open>r.preparation.decrypt()\<close> without
  having been cancelled: it reads \<^verbatim>\<open>_isTimelineOpen\<close> and calls \<^verbatim>\<open>readWriteTxn\<close> on the
  decrypted-session store, and on the device-identity store as well exactly when the
  timeline is open at that moment. If the transaction opens and \<^verbatim>\<open>changes.write\<close>
  returns without throwing, then, whatever other code does to the timeline meanwhile,
  \<^verbatim>\<open>verifySenders\<close> is called if and only if the timeline was open at that moment; the
  call comes right after the write, on the one write transaction of the request, before
  any \<^verbatim>\<open>complete()\<close>.
\<close>

theorem verifySenders_iff_timeline_open:
  assumes "run aw src es pre (decryptEntries src es itxn w0) = (r, w)"
    and "effects w0 = []"
    and "promise r = AwaitDecrypt" and "\<not> cancelled r" and "decrypt_throws aw = None"
    and "run aw src es post (step aw src es Resume (r, w)) = (r', w')"
    and "readWriteTxn_throws aw = None" and "write_throws aw = None"
    and "write_answered (promise r')"
  shows "effects (snd (step aw src es Resume (r, w))) =
           effects w @ [ReadWriteTxn (if timeline w \<noteq> None
                                      then [groupSessionDecryptions, deviceIdentities]
                                      else [groupSessionDecryptions])] \<and>
         (VerifySenders \<in> set (effects w') \<longleftrightarrow> timeline w \<noteq> None) \<and>
         (\<exists>rest. txn_effects (effects w') =
             [ReadWriteTxn (if timeline w \<noteq> None
                            then [groupSessionDecryptions, deviceIdentities]
                            else [groupSessionDecryptions]), ChangesWrite] @
             (if timeline w \<noteq> None then [VerifySenders] else []) @ rest \<and>
           VerifySenders \<notin> set rest \<and> (\<forall>s. ReadWriteTxn s \<notin> set rest))"
proof -
  let ?b = "timeline w \<noteq> None"
  from assms(3) have bw: "before_write (promise r)" by simp
  from reachable_before_write [OF assms(1) bw] have pre: "pre_ok aw w0 (r, w)" .
  from resume_opens_write_txn [OF pre assms(3,4,5), where es = es and src = src]
  have wo1: "write_ok aw es ?b w0 (step aw src es Resume (r, w))"
    and e1: "effects (snd (step aw src es Resume (r, w))) =
           effects w @ [ReadWriteTxn (write_stores ?b)]"
    by simp_all
  from run_write_ok [OF wo1, of src post] assms(6)
  have wo': "write_ok aw es ?b w0 (r', w')" by simp
  have mem: "VerifySenders \<in> set (effects w') \<longleftrightarrow> VerifySenders \<in> set (txn_effects (effects w'))"
    by (simp add: txn_effects_def)
  have ws: "write_stores ?b = (if ?b then [groupSessionDecryptions, deviceIdentities]
                                else [groupSessionDecryptions])"
    by (simp add: write_stores_def)
  from wo' assms(2,7,8,9)
  have shape: "\<exists>rest. txn_effects (effects w') =
             [ReadWriteTxn (write_stores ?b), ChangesWrite] @ verified ?b @ rest \<and>
           VerifySenders \<notin> set rest \<and> (\<forall>s. ReadWriteTxn s \<notin> set rest)"
    by (cases "promise r'") (auto simp: write_ok_def verified_def)
  then obtain rest where rest: "txn_effects (effects w') =
             [ReadWriteTxn (write_stores ?b), ChangesWrite] @ verified ?b @ rest"
      "VerifySenders \<notin> set rest" "\<forall>s. ReadWriteTxn s \<notin> set rest"
    by blast
  from rest(1,2) have iff: "VerifySenders \<in> set (txn_effects (effects w')) \<longleftrightarrow> ?b"
    by (auto simp: verified_def)
  from e1 ws have c1: "effects (snd (step aw src es Resume (r, w))) =
           effects w @ [ReadWriteTxn (if ?b then [groupSessionDecryptions, deviceIdentities]
                                      else [groupSessionDecryptions])]"
    by simp
  from rest ws have c3: "\<exists>rest. txn_effects (effects w') =
             [ReadWriteTxn (if ?b then [groupSessionDecryptions, deviceIdentities]
                            else [groupSessionDecryptions]), ChangesWrite] @
             (if ?b then [VerifySenders] else []) @ rest \<and>
           VerifySenders \<notin> set rest \<and> (\<forall>s. ReadWriteTxn s \<notin> set rest)"
    by (auto simp: verified_def)
  from c1 iff mem c3 show ?thesis by blast
qed

theorem verifySenders_iff_timeline_open_witness:
  "promise (fst (run example_outcomes SourceTimeline [0] [Resume, Resume] example_start)) =
     AwaitDecrypt \<and>
   timeline (snd (run example_outcomes SourceTimeline [0] [Resume, Resume] example_start)) \<noteq> None \<and>
   write_answered (promise (fst (run example_outcomes SourceTimeline [0]
     [Resume, Other (SetTimeline None), Resume, Resume]
     (step example_outcomes SourceTimeline [0] Resume
       (run example_outcomes SourceTimeline [0] [Resume, Resume] example_start))))) \<and>
   VerifySenders \<in> set (effects (snd (run example_outcomes SourceTimeline [0]
     [Resume, Other (SetTimeline None), Resume, Resume]
     (step example_outcomes SourceTimeline [0] Resume
       (run example_outcomes SourceTimeline [0] [Resume, Resume] example_start)))))"
proof -
  let ?c = "run example_outcomes SourceTimeline [0] [Resume, Resume] example_start"
  let ?c' = "run example_outcomes SourceTimeline [0]
     [Resume, Other (SetTimeline None), Resume, Resume]
     (step example_outcomes SourceTimeline [0] Resume ?c)"
  have a: "run example_outcomes SourceTimeline [0] [Resume, Resume]
      (decryptEntries SourceTimeline [0] None example_room) = (fst ?c, snd ?c)"
    by (simp add: example_start_def)
  have fresh: "effects example_room = []" by (simp add: example_room_def)
  have at: "promise (fst ?c) = AwaitDecrypt" "\<not> cancelled (fst ?c)"
    "decrypt_throws example_outcomes = None" "readWriteTxn_throws example_outcomes = None"
    "write_throws example_outcomes = None"
    by (simp_all add: example_defs)
  have tl: "timeline (snd ?c) \<noteq> None" by (simp add: example_defs)
  have b: "run example_outcomes SourceTimeline [0]
     [Resume, Other (SetTimeline None), Resume, Resume]
     (step example_outcomes SourceTimeline [0] Resume (fst ?c, snd ?c)) = (fst ?c', snd ?c')"
    by simp
  have wa: "write_answered (promise (fst ?c'))" by (simp add: example_defs)
  from verifySenders_iff_timeline_open [OF a fresh at(1,2,3) b at(4,5) wa] at(1) tl wa
  show ?thesis by simp
qed

section \<open>Properties of filling a gap\<close>


lemma fold_others_keeps [simp]:
  "storage (fold others is w) = storage w" "heap (fold others is w) = heap w"
  "effects (fold others is w) = effects w"
  "fragmentIdComparer (fold others is w) = fragmentIdComparer w"
  by (induction "is" arbitrary: w; simp; case_tac a; simp)+

lemma reachable_storage:
  assumes "run aw src es pre (decryptEntries src es itxn w0) = (r, w)"
  shows "storage w = storage w0 \<or> (\<exists>b. storage w = storage w0 @ [the_txn aw b])"
  using reachable [OF assms]
  by (cases "promise r") (auto simp: pre_ok_def write_ok_def)

lemma filter_txn_effects:
  assumes "\<And>e. P e \<Longrightarrow> txn_effect e"
  shows "filter P (txn_effects xs) = filter P xs"
  using assms by (induction xs) auto

lemma write_stores_not_gap [simp]:
  "write_stores b \<noteq> gap_stores" "gap_stores \<noteq> write_stores b"
  by (simp_all add: write_stores_def gap_stores_def)

lemma reachable_no_gap_txn:
  assumes "run aw src es pre (decryptEntries src es itxn w0) = (r, w)"
  shows "filter ((=) (ReadWriteTxn gap_stores)) (effects w) =
         filter ((=) (ReadWriteTxn gap_stores)) (effects w0)"
proof -
  have P: "\<And>e. ReadWriteTxn gap_stores = e \<Longrightarrow> txn_effect e" by auto
  from reachable [OF assms]
  have "filter ((=) (ReadWriteTxn gap_stores)) (txn_effects (effects w)) =
        filter ((=) (ReadWriteTxn gap_stores)) (txn_effects (effects w0))"
    by (cases "promise r") (auto simp: pre_ok_def write_ok_def verified_def)
  then show ?thesis by (simp add: filter_txn_effects [OF P])
qed

lemma fillGap_not_ok:
  assumes "fillGap g aw meanwhile sched fragmentEntry amount w = (res, w')"
    and "\<not> gap_ok g fragmentEntry"
  shows "storage w' = storage w \<and>
          (\<exists>xs. effects w' = effects w @ xs \<and>
             length (filter ((=) (ReadWriteTxn gap_stores)) xs) \<le> 1)"
  using assms
  by (auto simp: fillGap_def gap_ok_def Let_def alloc_def abort_def call_def
      split: if_splits sum.splits option.splits)

lemma fillGap_ok:
  assumes "fillGap g aw meanwhile sched fragmentEntry amount w = (res, w')"
    and "gap_ok g fragmentEntry"
  shows "\<exists>x ge gu gf wc.
            fillGap_committed aw meanwhile sched x ge gu gf wc = (res, w') \<and>
            storage wc =
              storage w @
                [\<lparr>stores = gap_stores,
                  pending = writeGapFill_puts g @ writeFragmentFill_puts g\<rparr>] \<and>
            effects wc =
              effects w @
                [Messages (token fragmentEntry) (asApiString (direction fragmentEntry)) amount,
                 ReadWriteTxn gap_stores, WriteGapFill, WriteFragmentFill,
                 TxnComplete gap_stores]"
proof -
  from assms(2) obtain response x gr where ok: "\<not> edgeReached fragmentEntry"
    "messages_result g = Inr response" "gap_readWriteTxn_throws g = None"
    "writeGapFill_result g = Inr x" "writeFragmentFill_result g = Inr gr"
    "gap_complete_throws g = None"
    by (auto simp: gap_ok_def)
  let ?h = "heap w @ created_entries gr @ created_updatedEntries gr"
  let ?wc = "w\<lparr>log := log w @
                  [(''id'', LString (roomId w)),
                   (''fragment'', LNat (fragmentId fragmentEntry)),
                   (''dir'', LString (asApiString (direction fragmentEntry)))],
               heap := ?h,
               effects := effects w @
                [Messages (token fragmentEntry) (asApiString (direction fragmentEntry)) amount,
                 ReadWriteTxn gap_stores, WriteGapFill, WriteFragmentFill,
                 TxnComplete gap_stores],
               storage := storage w @
                [\<lparr>stores = gap_stores,
                  pending = writeGapFill_puts g @ writeFragmentFill_puts g\<rparr>]\<rparr>"
  from assms(1) ok
  have "fillGap_committed aw meanwhile sched x
          [length (heap w)..<length (heap w) + length (created_entries gr)]
          [length (heap w) + length (created_entries gr)..<
           length (heap w) + length (created_entries gr) + length (created_updatedEntries gr)]
          (fragments gr) ?wc = (res, w')"
    by (simp add: fillGap_def Let_def alloc_def complete_def call_def)
  moreover have "storage ?wc = storage w @
                [\<lparr>stores = gap_stores,
                  pending = writeGapFill_puts g @ writeFragmentFill_puts g\<rparr>]"
    by simp
  moreover have "effects ?wc = effects w @
                [Messages (token fragmentEntry) (asApiString (direction fragmentEntry)) amount,
                 ReadWriteTxn gap_stores, WriteGapFill, WriteFragmentFill,
                 TxnComplete gap_stores]"
    by simp
  ultimately show ?thesis by blast
qed

lemma fillGap_cases:
  assumes "fillGap g aw meanwhile sched fragmentEntry amount w = (res, w')"
  shows "(storage w' = storage w \<and>
          (\<exists>xs. effects w' = effects w @ xs \<and>
             length (filter ((=) (ReadWriteTxn gap_stores)) xs) \<le> 1)) \<or>
         (\<exists>x ge gu gf wc.
            fillGap_committed aw meanwhile sched x ge gu gf wc = (res, w') \<and>
            storage wc =
              storage w @
                [\<lparr>stores = gap_stores,
                  pending = writeGapFill_puts g @ writeFragmentFill_puts g\<rparr>] \<and>
            effects wc =
              effects w @
                [Messages (token fragmentEntry) (asApiString (direction fragmentEntry)) amount,
                 ReadWriteTxn gap_stores, WriteGapFill, WriteFragmentFill,
                 TxnComplete gap_stores])"
  using fillGap_not_ok [OF assms] fillGap_ok [OF assms] by blast

lemma fillGap_committed_storage:
  assumes "fillGap_committed aw meanwhile sched x ge gu gf w = (res, w')"
  shows "(storage w' = storage w \<or> (\<exists>b. storage w' = storage w @ [the_txn aw b])) \<and>
         filter ((=) (ReadWriteTxn gap_stores)) (effects w') =
         filter ((=) (ReadWriteTxn gap_stores)) (effects w)"
proof (cases "roomEncryption (fold others meanwhile w)")
  case False
  with assms show ?thesis
    by (auto simp: fillGap_committed_def Let_def split: option.splits)
next
  case True
  obtain r w2 where run: "run aw SourceTimeline ge (undisposed sched)
       (decryptEntries SourceTimeline ge None (fold others meanwhile w)) = (r, w2)"
    by (cases "run aw SourceTimeline ge (undisposed sched)
       (decryptEntries SourceTimeline ge None (fold others meanwhile w))")
  from reachable_storage [OF run] reachable_no_gap_txn [OF run]
  have a: "storage w2 = storage w \<or> (\<exists>b. storage w2 = storage w @ [the_txn aw b])"
    "filter ((=) (ReadWriteTxn gap_stores)) (effects w2) =
         filter ((=) (ReadWriteTxn gap_stores)) (effects w)"
    by simp_all
  from assms True run have "storage w' = storage w2 \<and>
      filter ((=) (ReadWriteTxn gap_stores)) (effects w') =
      filter ((=) (ReadWriteTxn gap_stores)) (effects w2)"
    by (auto simp: fillGap_committed_def Let_def split: option.splits promise_state.splits)
  with a show ?thesis by auto
qed

lemma reachable_no_gap_call:
  assumes "run aw src es pre (decryptEntries src es itxn w0) = (r, w)"
    and "e = ReadWriteTxn gap_stores \<or> e = TxnAbort gap_stores \<or> e = TxnComplete gap_stores"
  shows "filter ((=) e) (effects w) = filter ((=) e) (effects w0)"
proof -
  from assms(2) have P: "\<And>x. e = x \<Longrightarrow> txn_effect x" by auto
  from reachable [OF assms(1)] assms(2)
  have "filter ((=) e) (txn_effects (effects w)) = filter ((=) e) (txn_effects (effects w0))"
    by (cases "promise r") (auto simp: pre_ok_def write_ok_def verified_def)
  then show ?thesis by (simp add: filter_txn_effects [OF P])
qed

lemma step_effects_grow:
  assumes "step aw src es m (r, w) = (r', w')"
  shows "\<exists>further. effects w' = effects w @ further"
  using assms
  by (cases m; cases "promise r")
     (auto simp: dispose_def prepare_step_def Let_def
           split: option.splits sum.splits if_splits)

lemma run_effects_grow:
  assumes "run aw src es ms (r, w) = (r', w')"
  shows "\<exists>further. effects w' = effects w @ further"
  using assms
proof (induction ms arbitrary: r w)
  case Nil
  then show ?case by simp
next
  case (Cons m ms)
  obtain r1 w1 where s: "step aw src es m (r, w) = (r1, w1)"
    by (cases "step aw src es m (r, w)")
  from step_effects_grow [OF s] obtain xs where xs: "effects w1 = effects w @ xs" by blast
  from Cons.prems s have "run aw src es ms (r1, w1) = (r', w')" by simp
  from Cons.IH [OF this] obtain ys where "effects w' = effects w1 @ ys" by blast
  with xs have "effects w' = effects w @ (xs @ ys)" by simp
  then show ?case by blast
qed

lemma request_effects_grow:
  assumes "run aw src es ms (decryptEntries src es itxn w) = (r, w')"
  shows "\<exists>further. effects w' = effects w @ further"
proof -
  obtain r0 w0 where d: "decryptEntries src es itxn w = (r0, w0)"
    by (cases "decryptEntries src es itxn w")
  then have "\<exists>xs. effects w0 = effects w @ xs"
    by (auto simp: decryptEntries_def prepare_step_def Let_def split: option.splits)
  then obtain xs where xs: "effects w0 = effects w @ xs" by blast
  from assms d have "run aw src es ms (r0, w0) = (r, w')" by simp
  from run_effects_grow [OF this] obtain ys where "effects w' = effects w0 @ ys" by blast
  with xs have "effects w' = effects w @ (xs @ ys)" by simp
  then show ?thesis by blast
qed

lemma grown_without:
  assumes "effects w' = effects w @ further"
    and "filter ((=) e) (effects w') = filter ((=) e) (effects w)"
  shows "e \<notin> set further"
proof -
  from assms have "filter ((=) e) further = []" by simp
  then show ?thesis by (auto simp: filter_empty_conv)
qed

lemma fillGap_committed_calls:
  assumes "fillGap_committed aw meanwhile sched x ge gu gf w = (res, w')"
  shows "\<exists>further. effects w' = effects w @ further \<and>
           ReadWriteTxn gap_stores \<notin> set further \<and> TxnAbort gap_stores \<notin> set further \<and>
           TxnComplete gap_stores \<notin> set further"
proof -
  have "\<exists>further. effects w' = effects w @ further \<and>
          (\<forall>e. e = ReadWriteTxn gap_stores \<or> e = TxnAbort gap_stores \<or>
                e = TxnComplete gap_stores \<longrightarrow>
             filter ((=) e) (effects w') = filter ((=) e) (effects w))"
  proof (cases "roomEncryption (fold others meanwhile w)")
    case False
    with assms have "effects w' = effects w @ [] \<or>
        effects w' = effects w @ [ApplyGapFill] \<or>
        effects w' = effects w @ [ReplaceEntries gu, AddOrReplaceEntries ge] \<or>
        effects w' = effects w @ [ApplyGapFill, ReplaceEntries gu, AddOrReplaceEntries ge]"
      by (auto simp: fillGap_committed_def Let_def split: option.splits)
    then show ?thesis by (elim disjE) (rule exI, rule conjI, assumption, auto)+
  next
    case True
    obtain r w2 where run: "run aw SourceTimeline ge (undisposed sched)
         (decryptEntries SourceTimeline ge None (fold others meanwhile w)) = (r, w2)"
      by (cases "run aw SourceTimeline ge (undisposed sched)
         (decryptEntries SourceTimeline ge None (fold others meanwhile w))")
    from request_effects_grow [OF run] obtain xs where xs: "effects w2 = effects w @ xs"
      by auto
    have keep: "filter ((=) e) (effects w2) = filter ((=) e) (effects w)"
      if "e = ReadWriteTxn gap_stores \<or> e = TxnAbort gap_stores \<or> e = TxnComplete gap_stores"
      for e
      using reachable_no_gap_call [OF run that] by simp
    from assms True run have "effects w' = effects w2 @ [] \<or>
        effects w' = effects w2 @ [ApplyGapFill] \<or>
        effects w' = effects w2 @ [ReplaceEntries gu, AddOrReplaceEntries ge] \<or>
        effects w' = effects w2 @ [ApplyGapFill, ReplaceEntries gu, AddOrReplaceEntries ge]"
      by (auto simp: fillGap_committed_def Let_def split: option.splits promise_state.splits)
    then obtain ys where ys: "effects w' = effects w2 @ ys"
      and clean: "\<forall>e. e = ReadWriteTxn gap_stores \<or> e = TxnAbort gap_stores \<or>
                e = TxnComplete gap_stores \<longrightarrow> filter ((=) e) ys = []"
      by (elim disjE) auto
    from ys xs have "effects w' = effects w @ (xs @ ys)" by simp
    moreover from ys clean keep
    have "\<forall>e. e = ReadWriteTxn gap_stores \<or> e = TxnAbort gap_stores \<or>
                e = TxnComplete gap_stores \<longrightarrow>
             filter ((=) e) (effects w') = filter ((=) e) (effects w)"
      by simp
    ultimately show ?thesis by blast
  qed
  then obtain further where m: "effects w' = effects w @ further"
    and k: "\<And>e. e = ReadWriteTxn gap_stores \<or> e = TxnAbort gap_stores \<or>
                e = TxnComplete gap_stores \<Longrightarrow>
             filter ((=) e) (effects w') = filter ((=) e) (effects w)"
    by blast
  from grown_without [OF m k] have "ReadWriteTxn gap_stores \<notin> set further"
    "TxnAbort gap_stores \<notin> set further" "TxnComplete gap_stores \<notin> set further"
    by simp_all
  with m show ?thesis by blast
qed

lemmas gap_example_defs = fillGap_def fillGap_committed_def example_gap_def fragment_fill_fails_def
  example_fragment_def alloc_def gap_stores_def undisposed_def

text \<open>
  Claim C9. For a fragment entry whose \<^verbatim>\<open>edgeReached\<close> is true, \<^verbatim>\<open>fillGap\<close> returns
  with the room as it was but for four values set on the log item: it has called nothing
  (no \<^verbatim>\<open>messages\<close> request, no transaction), and the stored state, the fragment
  comparer, the timeline and the entries are unchanged.
\<close>

theorem fillGap_edgeReached_returns:
  assumes "edgeReached fragmentEntry"
  shows "fillGap g aw meanwhile sched fragmentEntry amount w =
           (Returned (),
            w\<lparr>log := log w @
                 [(''id'', LString (roomId w)),
                  (''fragment'', LNat (fragmentId fragmentEntry)),
                  (''dir'', LString (asApiString (direction fragmentEntry))),
                  (''edgeReached'', LBool True)]\<rparr>) \<and>
         effects (snd (fillGap g aw meanwhile sched fragmentEntry amount w)) = effects w \<and>
         storage (snd (fillGap g aw meanwhile sched fragmentEntry amount w)) = storage w \<and>
         fragmentIdComparer (snd (fillGap g aw meanwhile sched fragmentEntry amount w)) =
           fragmentIdComparer w \<and>
         timeline (snd (fillGap g aw meanwhile sched fragmentEntry amount w)) = timeline w \<and>
         heap (snd (fillGap g aw meanwhile sched fragmentEntry amount w)) = heap w"
  using assms by (simp add: fillGap_def Let_def)

theorem fillGap_edgeReached_returns_witness:
  "edgeReached (example_fragment\<lparr>edgeReached := True\<rparr>) \<and>
   fst (fillGap example_gap example_outcomes [] [Resume] (example_fragment\<lparr>edgeReached := True\<rparr>)
          20 example_room) = Returned () \<and>
   effects (snd (fillGap example_gap example_outcomes [] [Resume]
          (example_fragment\<lparr>edgeReached := True\<rparr>) 20 example_room)) = [] \<and>
   storage (snd (fillGap example_gap example_outcomes [] [Resume]
          (example_fragment\<lparr>edgeReached := True\<rparr>) 20 example_room)) = []"
proof -
  have e: "edgeReached (example_fragment\<lparr>edgeReached := True\<rparr>)" by simp
  from fillGap_edgeReached_returns [OF e, of example_gap example_outcomes "[]" "[Resume]" 20
      example_room] e
  show ?thesis by (simp add: example_room_def)
qed

text \<open>
  Claim C2. Whatever the awaited calls answer, a gap fill leaves the stored state as it
  was or adds to it one committed transaction that spans exactly the pending-events,
  timeline-events and timeline-fragments stores and holds all the writes of
  \<^verbatim>\<open>_writeGapFill\<close> and \<^verbatim>\<open>writeFragmentFill\<close> (a transaction committed after it is the
  decryption request's and spans other stores); \<^verbatim>\<open>fillGap\<close> opens that one transaction
  at most. If \<^verbatim>\<open>_writeGapFill\<close> or \<^verbatim>\<open>writeFragmentFill\<close> throws, \<^verbatim>\<open>fillGap\<close> calls
  \<^verbatim>\<open>abort()\<close> on the transaction as its last call and throws the same error: nothing is
  stored, and the entries, the fragment comparer and the timeline are untouched. If the
  \<^verbatim>\<open>messages\<close> request, \<^verbatim>\<open>readWriteTxn\<close>, \<^verbatim>\<open>_writeGapFill\<close>, \<^verbatim>\<open>writeFragmentFill\<close> and
  \<^verbatim>\<open>txn.complete()\<close> all succeed, the transaction is committed with all these writes,
  whatever happens afterwards: \<^verbatim>\<open>fillGap\<close> calls \<^verbatim>\<open>messages\<close>, \<^verbatim>\<open>readWriteTxn\<close> on the three
  stores, \<^verbatim>\<open>_writeGapFill\<close>, \<^verbatim>\<open>writeFragmentFill\<close> and \<^verbatim>\<open>complete()\<close> in this order, and
  later neither opens, aborts nor completes a transaction on these stores. If one of
  these calls fails, or the edge is reached, nothing is stored.
\<close>

theorem fillGap_single_transaction:
  assumes "fillGap g aw meanwhile sched fragmentEntry amount w = (res, w')"
  shows "(storage w' = storage w \<or>
          (\<exists>rest. storage w' =
              storage w @
                \<lparr>stores = [pendingEvents, timelineEvents, timelineFragments],
                 pending = writeGapFill_puts g @ writeFragmentFill_puts g\<rparr> # rest \<and>
             (\<forall>t \<in> set rest. stores t \<noteq> [pendingEvents, timelineEvents, timelineFragments]))) \<and>
         length (filter ((=) (ReadWriteTxn [pendingEvents, timelineEvents, timelineFragments]))
                   (effects w')) \<le>
           length (filter ((=) (ReadWriteTxn [pendingEvents, timelineEvents, timelineFragments]))
                   (effects w)) + 1 \<and>
         (\<not> edgeReached fragmentEntry \<and> messages_result g = Inr response \<and>
          gap_readWriteTxn_throws g = None \<and>
          (writeGapFill_result g = Inl err \<or>
           writeGapFill_result g = Inr changes \<and> writeFragmentFill_result g = Inl err) \<longrightarrow>
            res = Thrown err \<and> storage w' = storage w \<and> heap w' = heap w \<and>
            fragmentIdComparer w' = fragmentIdComparer w \<and> timeline w' = timeline w \<and>
            (\<exists>calls. set calls \<subseteq> {WriteGapFill, WriteFragmentFill} \<and>
               effects w' =
                 effects w @
                   [Messages (token fragmentEntry) (asApiString (direction fragmentEntry)) amount,
                    ReadWriteTxn [pendingEvents, timelineEvents, timelineFragments]] @ calls @
                   [TxnAbort [pendingEvents, timelineEvents, timelineFragments]])) \<and>
         (\<not> edgeReached fragmentEntry \<and> messages_result g = Inr response \<and>
          gap_readWriteTxn_throws g = None \<and> writeGapFill_result g = Inr changes \<and>
          writeFragmentFill_result g = Inr gapResult \<and> gap_complete_throws g = None \<longrightarrow>
            (\<exists>rest further.
               storage w' =
                 storage w @
                   \<lparr>stores = [pendingEvents, timelineEvents, timelineFragments],
                    pending = writeGapFill_puts g @ writeFragmentFill_puts g\<rparr> # rest \<and>
               (\<forall>t \<in> set rest. stores t \<noteq> [pendingEvents, timelineEvents, timelineFragments]) \<and>
               effects w' =
                 effects w @
                   [Messages (token fragmentEntry) (asApiString (direction fragmentEntry)) amount,
                    ReadWriteTxn [pendingEvents, timelineEvents, timelineFragments],
                    WriteGapFill, WriteFragmentFill,
                    TxnComplete [pendingEvents, timelineEvents, timelineFragments]] @ further \<and>
               ReadWriteTxn [pendingEvents, timelineEvents, timelineFragments] \<notin> set further \<and>
               TxnAbort [pendingEvents, timelineEvents, timelineFragments] \<notin> set further \<and>
               TxnComplete [pendingEvents, timelineEvents, timelineFragments] \<notin> set further)) \<and>
         (\<not> gap_ok g fragmentEntry \<longrightarrow> storage w' = storage w)"
proof -
  have third: "res = Thrown err \<and> storage w' = storage w \<and> heap w' = heap w \<and>
            fragmentIdComparer w' = fragmentIdComparer w \<and> timeline w' = timeline w \<and>
            (\<exists>calls. set calls \<subseteq> {WriteGapFill, WriteFragmentFill} \<and>
               effects w' =
                 effects w @
                   [Messages (token fragmentEntry) (asApiString (direction fragmentEntry)) amount,
                    ReadWriteTxn [pendingEvents, timelineEvents, timelineFragments]] @ calls @
                   [TxnAbort [pendingEvents, timelineEvents, timelineFragments]])"
    if h: "\<not> edgeReached fragmentEntry" "messages_result g = Inr response"
          "gap_readWriteTxn_throws g = None"
          "writeGapFill_result g = Inl err \<or>
           writeGapFill_result g = Inr changes \<and> writeFragmentFill_result g = Inl err"
  proof -
    from h(4) show ?thesis
    proof
      assume "writeGapFill_result g = Inl err"
      with assms h(1,2,3) have "res = Thrown err \<and> storage w' = storage w \<and> heap w' = heap w \<and>
            fragmentIdComparer w' = fragmentIdComparer w \<and> timeline w' = timeline w \<and>
            effects w' = effects w @
                   [Messages (token fragmentEntry) (asApiString (direction fragmentEntry)) amount,
                    ReadWriteTxn [pendingEvents, timelineEvents, timelineFragments]] @ [WriteGapFill] @
                   [TxnAbort [pendingEvents, timelineEvents, timelineFragments]]"
        by (auto simp: fillGap_def Let_def gap_stores_def abort_def call_def)
      then show ?thesis by (intro conjI exI [of _ "[WriteGapFill]"]) auto
    next
      assume "writeGapFill_result g = Inr changes \<and> writeFragmentFill_result g = Inl err"
      with assms h(1,2,3) have "res = Thrown err \<and> storage w' = storage w \<and> heap w' = heap w \<and>
            fragmentIdComparer w' = fragmentIdComparer w \<and> timeline w' = timeline w \<and>
            effects w' = effects w @
                   [Messages (token fragmentEntry) (asApiString (direction fragmentEntry)) amount,
                    ReadWriteTxn [pendingEvents, timelineEvents, timelineFragments]] @
                   [WriteGapFill, WriteFragmentFill] @
                   [TxnAbort [pendingEvents, timelineEvents, timelineFragments]]"
        by (auto simp: fillGap_def Let_def gap_stores_def abort_def call_def)
      then show ?thesis by (intro conjI exI [of _ "[WriteGapFill, WriteFragmentFill]"]) auto
    qed
  qed
  have first: "(storage w' = storage w \<or>
          (\<exists>rest. storage w' =
              storage w @
                \<lparr>stores = [pendingEvents, timelineEvents, timelineFragments],
                 pending = writeGapFill_puts g @ writeFragmentFill_puts g\<rparr> # rest \<and>
             (\<forall>t \<in> set rest. stores t \<noteq> [pendingEvents, timelineEvents, timelineFragments]))) \<and>
         length (filter ((=) (ReadWriteTxn [pendingEvents, timelineEvents, timelineFragments]))
                   (effects w')) \<le>
           length (filter ((=) (ReadWriteTxn [pendingEvents, timelineEvents, timelineFragments]))
                   (effects w)) + 1"
  proof -
    from fillGap_cases [OF assms] show ?thesis
    proof
      assume "storage w' = storage w \<and>
          (\<exists>xs. effects w' = effects w @ xs \<and>
             length (filter ((=) (ReadWriteTxn gap_stores)) xs) \<le> 1)"
      then show ?thesis by (auto simp: gap_stores_def)
    next
      assume "\<exists>x ge gu gf wc.
            fillGap_committed aw meanwhile sched x ge gu gf wc = (res, w') \<and>
            storage wc =
              storage w @
                [\<lparr>stores = gap_stores,
                  pending = writeGapFill_puts g @ writeFragmentFill_puts g\<rparr>] \<and>
            effects wc =
              effects w @
                [Messages (token fragmentEntry) (asApiString (direction fragmentEntry)) amount,
                 ReadWriteTxn gap_stores, WriteGapFill, WriteFragmentFill,
                 TxnComplete gap_stores]"
      then obtain x ge gu gf wc where c:
        "fillGap_committed aw meanwhile sched x ge gu gf wc = (res, w')"
        "storage wc = storage w @
                [\<lparr>stores = gap_stores,
                  pending = writeGapFill_puts g @ writeFragmentFill_puts g\<rparr>]"
        "effects wc = effects w @
                [Messages (token fragmentEntry) (asApiString (direction fragmentEntry)) amount,
                 ReadWriteTxn gap_stores, WriteGapFill, WriteFragmentFill,
                 TxnComplete gap_stores]"
        by blast
      from fillGap_committed_storage [OF c(1)] c(2,3)
      have "storage w' = storage w @
                \<lparr>stores = gap_stores,
                  pending = writeGapFill_puts g @ writeFragmentFill_puts g\<rparr> # [] \<or>
            (\<exists>b. storage w' = storage w @
                \<lparr>stores = gap_stores,
                  pending = writeGapFill_puts g @ writeFragmentFill_puts g\<rparr> # [the_txn aw b])"
        and n: "length (filter ((=) (ReadWriteTxn gap_stores)) (effects w')) =
           length (filter ((=) (ReadWriteTxn gap_stores)) (effects w)) + 1"
        by auto
      then have "\<exists>rest. storage w' = storage w @
                \<lparr>stores = gap_stores,
                  pending = writeGapFill_puts g @ writeFragmentFill_puts g\<rparr> # rest \<and>
             (\<forall>t \<in> set rest. stores t \<noteq> gap_stores)"
        by (auto simp: the_txn_def)
      with n show ?thesis by (simp add: gap_stores_def)
    qed
  qed
  have fourth: "\<exists>rest further.
               storage w' =
                 storage w @
                   \<lparr>stores = [pendingEvents, timelineEvents, timelineFragments],
                    pending = writeGapFill_puts g @ writeFragmentFill_puts g\<rparr> # rest \<and>
               (\<forall>t \<in> set rest. stores t \<noteq> [pendingEvents, timelineEvents, timelineFragments]) \<and>
               effects w' =
                 effects w @
                   [Messages (token fragmentEntry) (asApiString (direction fragmentEntry)) amount,
                    ReadWriteTxn [pendingEvents, timelineEvents, timelineFragments],
                    WriteGapFill, WriteFragmentFill,
                    TxnComplete [pendingEvents, timelineEvents, timelineFragments]] @ further \<and>
               ReadWriteTxn [pendingEvents, timelineEvents, timelineFragments] \<notin> set further \<and>
               TxnAbort [pendingEvents, timelineEvents, timelineFragments] \<notin> set further \<and>
               TxnComplete [pendingEvents, timelineEvents, timelineFragments] \<notin> set further"
    if h: "\<not> edgeReached fragmentEntry \<and> messages_result g = Inr response \<and>
          gap_readWriteTxn_throws g = None \<and> writeGapFill_result g = Inr changes \<and>
          writeFragmentFill_result g = Inr gapResult \<and> gap_complete_throws g = None"
  proof -
    from h have ok: "gap_ok g fragmentEntry" by (simp add: gap_ok_def)
    from fillGap_ok [OF assms ok] obtain x ge gu gf wc where c:
        "fillGap_committed aw meanwhile sched x ge gu gf wc = (res, w')"
        "storage wc = storage w @
                [\<lparr>stores = gap_stores,
                  pending = writeGapFill_puts g @ writeFragmentFill_puts g\<rparr>]"
        "effects wc = effects w @
                [Messages (token fragmentEntry) (asApiString (direction fragmentEntry)) amount,
                 ReadWriteTxn gap_stores, WriteGapFill, WriteFragmentFill,
                 TxnComplete gap_stores]"
      by blast
    from fillGap_committed_storage [OF c(1)] c(2)
    have "storage w' = storage w @
                \<lparr>stores = gap_stores,
                  pending = writeGapFill_puts g @ writeFragmentFill_puts g\<rparr> # [] \<or>
            (\<exists>b. storage w' = storage w @
                \<lparr>stores = gap_stores,
                  pending = writeGapFill_puts g @ writeFragmentFill_puts g\<rparr> # [the_txn aw b])"
      by auto
    then obtain rest where rest: "storage w' = storage w @
                \<lparr>stores = gap_stores,
                  pending = writeGapFill_puts g @ writeFragmentFill_puts g\<rparr> # rest"
        "\<forall>t \<in> set rest. stores t \<noteq> gap_stores"
      by (auto simp: the_txn_def)
    from fillGap_committed_calls [OF c(1)] c(3) obtain further where further:
        "effects w' = effects w @
                [Messages (token fragmentEntry) (asApiString (direction fragmentEntry)) amount,
                 ReadWriteTxn gap_stores, WriteGapFill, WriteFragmentFill,
                 TxnComplete gap_stores] @ further"
        "ReadWriteTxn gap_stores \<notin> set further" "TxnAbort gap_stores \<notin> set further"
        "TxnComplete gap_stores \<notin> set further"
      by auto
    from rest further show ?thesis
      unfolding gap_stores_def by (intro exI [of _ rest] exI [of _ further] conjI)
  qed
  have fifth: "storage w' = storage w" if "\<not> gap_ok g fragmentEntry"
    using fillGap_not_ok [OF assms that] by simp
  note D = impI [OF fourth]
  note E = impI [OF fifth]
  from first have F: "storage w' = storage w \<or>
          (\<exists>rest. storage w' =
              storage w @
                \<lparr>stores = [pendingEvents, timelineEvents, timelineFragments],
                 pending = writeGapFill_puts g @ writeFragmentFill_puts g\<rparr> # rest \<and>
             (\<forall>t \<in> set rest. stores t \<noteq> [pendingEvents, timelineEvents, timelineFragments]))"
    and G: "length (filter ((=) (ReadWriteTxn [pendingEvents, timelineEvents, timelineFragments]))
                   (effects w')) \<le>
           length (filter ((=) (ReadWriteTxn [pendingEvents, timelineEvents, timelineFragments]))
                   (effects w)) + 1"
    by simp_all
  from third have H: "\<not> edgeReached fragmentEntry \<and> messages_result g = Inr response \<and>
          gap_readWriteTxn_throws g = None \<and>
          (writeGapFill_result g = Inl err \<or>
           writeGapFill_result g = Inr changes \<and> writeFragmentFill_result g = Inl err) \<longrightarrow>
            res = Thrown err \<and> storage w' = storage w \<and> heap w' = heap w \<and>
            fragmentIdComparer w' = fragmentIdComparer w \<and> timeline w' = timeline w \<and>
            (\<exists>calls. set calls \<subseteq> {WriteGapFill, WriteFragmentFill} \<and>
               effects w' =
                 effects w @
                   [Messages (token fragmentEntry) (asApiString (direction fragmentEntry)) amount,
                    ReadWriteTxn [pendingEvents, timelineEvents, timelineFragments]] @ calls @
                   [TxnAbort [pendingEvents, timelineEvents, timelineFragments]])"
    by blast
  from F G H D E show ?thesis by (intro conjI)
qed

theorem fillGap_single_transaction_witness:
  "fst (fillGap fragment_fill_fails example_outcomes [] [] example_fragment 20 example_room) =
     Thrown (Error ''quota exceeded'') \<and>
   storage (snd (fillGap fragment_fill_fails example_outcomes [] [] example_fragment 20
     example_room)) = [] \<and>
   effects (snd (fillGap fragment_fill_fails example_outcomes [] [] example_fragment 20
     example_room)) =
     [Messages ''t0'' ''b'' 20, ReadWriteTxn [pendingEvents, timelineEvents, timelineFragments],
      WriteGapFill, WriteFragmentFill, TxnAbort [pendingEvents, timelineEvents, timelineFragments]] \<and>
   (\<exists>rest further.
      storage (snd (fillGap example_gap example_outcomes []
        [Resume, Resume, Resume, Resume, Resume, Resume, Resume]
        (example_fragment\<lparr>direction := Forward\<rparr>) 20 example_room)) =
        \<lparr>stores = [pendingEvents, timelineEvents, timelineFragments],
         pending = [(pendingEvents, ''echo''), (timelineEvents, ''$e2''),
                    (timelineFragments, ''3'')]\<rparr> # rest \<and>
      effects (snd (fillGap example_gap example_outcomes []
        [Resume, Resume, Resume, Resume, Resume, Resume, Resume]
        (example_fragment\<lparr>direction := Forward\<rparr>) 20 example_room)) =
        [Messages ''t0'' ''f'' 20, ReadWriteTxn [pendingEvents, timelineEvents, timelineFragments],
         WriteGapFill, WriteFragmentFill,
         TxnComplete [pendingEvents, timelineEvents, timelineFragments]] @ further \<and>
      TxnAbort [pendingEvents, timelineEvents, timelineFragments] \<notin> set further) \<and>
   storage (snd (fillGap example_gap example_outcomes []
     [Resume, Resume, Resume, Resume, Resume, Resume, Resume] example_fragment 20 example_room)) =
     [\<lparr>stores = [pendingEvents, timelineEvents, timelineFragments],
       pending = [(pendingEvents, ''echo''), (timelineEvents, ''$e2''), (timelineFragments, ''3'')]\<rparr>,
      \<lparr>stores = [groupSessionDecryptions, deviceIdentities],
       pending = [(groupSessionDecryptions, ''$e1'')]\<rparr>]"
proof -
  let ?f = "fillGap fragment_fill_fails example_outcomes [] [] example_fragment 20 example_room"
  let ?s = "fillGap example_gap example_outcomes []
     [Resume, Resume, Resume, Resume, Resume, Resume, Resume] example_fragment 20 example_room"
  let ?fw = "example_fragment\<lparr>direction := Forward\<rparr>"
  let ?t = "fillGap example_gap example_outcomes []
     [Resume, Resume, Resume, Resume, Resume, Resume, Resume] ?fw 20 example_room"
  have f: "?f = (fst ?f, snd ?f)" and s: "?s = (fst ?s, snd ?s)" and t: "?t = (fst ?t, snd ?t)"
    by simp_all
  have h: "\<not> edgeReached example_fragment"
    "messages_result fragment_fill_fails = Inr [''event 2'']"
    "gap_readWriteTxn_throws fragment_fill_fails = None"
    "writeGapFill_result fragment_fill_fails = Inr None"
    "writeFragmentFill_result fragment_fill_fails = Inl (Error ''quota exceeded'')"
    by (simp_all add: gap_example_defs)
  from fillGap_single_transaction [OF f, of "[''event 2'']" "Error ''quota exceeded''" None] h
  have a: "fst ?f = Thrown (Error ''quota exceeded'')" "storage (snd ?f) = storage example_room"
    by simp_all
  have b: "effects (snd ?f) =
     [Messages ''t0'' ''b'' 20, ReadWriteTxn [pendingEvents, timelineEvents, timelineFragments],
      WriteGapFill, WriteFragmentFill, TxnAbort [pendingEvents, timelineEvents, timelineFragments]]"
    by (simp add: gap_example_defs example_defs)
  have k: "\<not> edgeReached ?fw \<and> messages_result example_gap = Inr [''event 2''] \<and>
      gap_readWriteTxn_throws example_gap = None \<and> writeGapFill_result example_gap = Inr None \<and>
      writeFragmentFill_result example_gap =
        Inr \<lparr>created_entries = [example_entry\<lparr>entryId := ''$e2''\<rparr>],
             created_updatedEntries = [], fragments = [3]\<rparr> \<and>
      gap_complete_throws example_gap = None"
    by (simp add: gap_example_defs)
  have v: "token ?fw = ''t0''" "asApiString (direction ?fw) = ''f''"
    "writeGapFill_puts example_gap @ writeFragmentFill_puts example_gap =
       [(pendingEvents, ''echo''), (timelineEvents, ''$e2''), (timelineFragments, ''3'')]"
    "storage example_room = []" "effects example_room = []"
    by (simp_all add: gap_example_defs example_defs)
  note inst = fillGap_single_transaction [OF t, where response = "[''event 2'']"
      and changes = None
      and gapResult = "\<lparr>created_entries = [example_entry\<lparr>entryId := ''$e2''\<rparr>],
             created_updatedEntries = [], fragments = [3]\<rparr>"]
  from inst k obtain rest further where
    "storage (snd ?t) = storage example_room @
       \<lparr>stores = [pendingEvents, timelineEvents, timelineFragments],
        pending = writeGapFill_puts example_gap @ writeFragmentFill_puts example_gap\<rparr> # rest"
    "effects (snd ?t) = effects example_room @
       [Messages (token ?fw) (asApiString (direction ?fw)) 20,
        ReadWriteTxn [pendingEvents, timelineEvents, timelineFragments],
        WriteGapFill, WriteFragmentFill,
        TxnComplete [pendingEvents, timelineEvents, timelineFragments]] @ further"
    "TxnAbort [pendingEvents, timelineEvents, timelineFragments] \<notin> set further"
    by blast
  then have d: "\<exists>rest further.
      storage (snd ?t) =
        \<lparr>stores = [pendingEvents, timelineEvents, timelineFragments],
         pending = [(pendingEvents, ''echo''), (timelineEvents, ''$e2''),
                    (timelineFragments, ''3'')]\<rparr> # rest \<and>
      effects (snd ?t) =
        [Messages ''t0'' ''f'' 20, ReadWriteTxn [pendingEvents, timelineEvents, timelineFragments],
         WriteGapFill, WriteFragmentFill,
         TxnComplete [pendingEvents, timelineEvents, timelineFragments]] @ further \<and>
      TxnAbort [pendingEvents, timelineEvents, timelineFragments] \<notin> set further"
    unfolding v by (intro exI [of _ rest] exI [of _ further]) simp
  have c: "storage (snd ?s) =
     [\<lparr>stores = [pendingEvents, timelineEvents, timelineFragments],
       pending = [(pendingEvents, ''echo''), (timelineEvents, ''$e2''), (timelineFragments, ''3'')]\<rparr>,
      \<lparr>stores = [groupSessionDecryptions, deviceIdentities],
       pending = [(groupSessionDecryptions, ''$e1'')]\<rparr>]"
    by (simp add: gap_example_defs example_defs)
  from a(2) have a2: "storage (snd ?f) = []" by (simp add: example_room_def)
  from a(1) a2 b d c show ?thesis by (intro conjI)
qed

section \<open>Properties of opening the timeline\<close>

text \<open>
  Claim C6. On a room whose \<^verbatim>\<open>_timeline\<close> is set, \<^verbatim>\<open>openTimeline\<close> throws and leaves
  the room as it was but for the id on the log item: it returns no timeline, makes no
  call, and the timeline that is open stays in place. A first \<^verbatim>\<open>openTimeline\<close> that is
  still awaiting \<^verbatim>\<open>load\<close> has set the field already, so a second call at that point
  throws as well and leaves the timeline of the first in place.
\<close>

theorem openTimeline_already_open:
  "(timeline w \<noteq> None \<longrightarrow>
      openTimeline oo w =
        (Thrown (Error ''not dealing with load race here for now''),
         w\<lparr>log := log w @ [(''id'', LString (roomId w))]\<rparr>)) \<and>
   (fst (openTimeline oo w) = Pending \<longrightarrow>
      timeline (snd (openTimeline oo w)) \<noteq> None \<and>
      fst (openTimeline oo' (snd (openTimeline oo w))) =
        Thrown (Error ''not dealing with load race here for now'') \<and>
      timeline (snd (openTimeline oo' (snd (openTimeline oo w)))) =
        timeline (snd (openTimeline oo w)) \<and>
      effects (snd (openTimeline oo' (snd (openTimeline oo w)))) =
        effects (snd (openTimeline oo w)))"
  by (auto simp: openTimeline_def openTimeline_catch_def Let_def split: option.splits if_splits)

theorem openTimeline_already_open_witness:
  "timeline example_room \<noteq> None \<and>
   fst (openTimeline example_open example_room) =
     Thrown (Error ''not dealing with load race here for now'') \<and>
   timeline (snd (openTimeline example_open example_room)) = Some \<lparr>remoteEntries = [0]\<rparr> \<and>
   fst (openTimeline example_open (example_room\<lparr>timeline := None\<rparr>)) = Pending \<and>
   fst (openTimeline example_open
         (snd (openTimeline example_open (example_room\<lparr>timeline := None\<rparr>)))) =
     Thrown (Error ''not dealing with load race here for now'') \<and>
   timeline (snd (openTimeline example_open
         (snd (openTimeline example_open (example_room\<lparr>timeline := None\<rparr>))))) =
     Some \<lparr>remoteEntries = []\<rparr>"
proof -
  have a: "timeline example_room \<noteq> None" by (simp add: example_room_def)
  have b: "fst (openTimeline example_open (example_room\<lparr>timeline := None\<rparr>)) = Pending"
    by (simp add: openTimeline_def example_room_def example_open_def Let_def)
  have c: "timeline (snd (openTimeline example_open (example_room\<lparr>timeline := None\<rparr>))) =
      Some \<lparr>remoteEntries = []\<rparr>"
    by (simp add: openTimeline_def example_room_def example_open_def Let_def call_def)
  from openTimeline_already_open [of example_room example_open example_open] a
  have d: "fst (openTimeline example_open example_room) =
     Thrown (Error ''not dealing with load race here for now'')"
    "timeline (snd (openTimeline example_open example_room)) = timeline example_room"
    by simp_all
  from openTimeline_already_open [of "example_room\<lparr>timeline := None\<rparr>" example_open example_open] b
  have e: "fst (openTimeline example_open
         (snd (openTimeline example_open (example_room\<lparr>timeline := None\<rparr>)))) =
     Thrown (Error ''not dealing with load race here for now'')"
    "timeline (snd (openTimeline example_open
         (snd (openTimeline example_open (example_room\<lparr>timeline := None\<rparr>))))) =
     timeline (snd (openTimeline example_open (example_room\<lparr>timeline := None\<rparr>)))"
    by simp_all
  from a b c d e show ?thesis by (simp add: example_room_def)
qed

section \<open>Properties of the retry batches\<close>


lemma push_entries_Inr:
  assumes "push_entries get ids acc h = Inr (acc', h')"
  shows "acc' = acc @ [length h ..< length h + length (found_entries get ids)] \<and>
         h' = h @ map new_EventEntry (found_entries get ids)"
  using assms
proof (induction ids arbitrary: acc h)
  case Nil
  then show ?case by simp
next
  case (Cons i ids)
  show ?case
  proof (cases "get i")
    case (Inl err)
    with Cons.prems show ?thesis by simp
  next
    case (Inr found)
    show ?thesis
    proof (cases found)
      case None
      with Inr Cons show ?thesis by simp
    next
      case (Some se)
      with Inr Cons.prems
      have "push_entries get ids (acc @ [length h]) (h @ [new_EventEntry se]) = Inr (acc', h')"
        by simp
      from Cons.IH [OF this] Inr Some show ?thesis
        by (simp add: upt_conv_Cons del: upt_Suc)
    qed
  qed
qed

lemma found_entries_ids:
  assumes "\<forall>i se. get i = Inr (Some se) \<longrightarrow> stored_id se = i"
  shows "map stored_id (found_entries get ids) = filter (\<lambda>i. \<exists>se. get i = Inr (Some se)) ids"
  using assms by (induction ids) (auto split: sum.splits option.splits)

lemma fold_insert_image: "fold (\<lambda>e ids. insert (f e) ids) xs A = f ` set xs \<union> A"
  by (induction xs arbitrary: A) auto

lemma fold_others_timeline:
  assumes "timeline w = timeline w'"
  shows "timeline (fold others is w) = timeline (fold others is w')"
  using assms
proof (induction "is" arbitrary: w w')
  case Nil
  then show ?case by simp
next
  case (Cons i "is")
  from Cons.prems have "timeline (others i w) = timeline (others i w')"
    by (cases i) simp_all
  from Cons.IH [OF this] show ?case by simp
qed

lemma fold_others_roomEncryption:
  assumes "roomEncryption w = roomEncryption w'"
  shows "roomEncryption (fold others is w) = roomEncryption (fold others is w')"
  using assms
proof (induction "is" arbitrary: w w')
  case Nil
  then show ?case by simp
next
  case (Cons i "is")
  from Cons.prems have "roomEncryption (others i w) = roomEncryption (others i w')"
    by (cases i) simp_all
  from Cons.IH [OF this] show ?case by simp
qed

lemma entriesPerKey_Inr:
  assumes "entriesPerKey ro completion keys h = Inr (perKey, h')"
  shows "\<exists>objs. h' = h @ objs \<and>
           concat (map (\<lambda>found. case found of Some es \<Rightarrow> es | None \<Rightarrow> []) perKey) =
             [length h ..< length h']"
  using assms
proof (induction keys arbitrary: h perKey)
  case Nil
  then show ?case by simp
next
  case (Cons key keys)
  show ?case
  proof (cases "getEventIdsForMissingKey ro key")
    case (Inl err)
    with Cons.prems show ?thesis by simp
  next
    case (Inr ids)
    show ?thesis
    proof (cases ids)
      case None
      with Inr Cons.prems obtain rest where
        r: "entriesPerKey ro completion keys h = Inr (rest, h')" "perKey = None # rest"
        by (auto split: sum.splits)
      from Cons.IH [OF r(1)] r(2) show ?thesis by simp
    next
      case (Some retryEventIds)
      with Inr Cons.prems obtain found h1 rest where
        r: "eventIdsToEntries (completion key) retryEventIds (getByEventId ro) h = Inr (found, h1)"
           "entriesPerKey ro completion keys h1 = Inr (rest, h')" "perKey = Some found # rest"
        by (auto split: sum.splits)
      from push_entries_Inr [OF r(1) [unfolded eventIdsToEntries_def]]
      obtain objs1 where o1: "h1 = h @ objs1" "found = [length h ..< length h1]"
        by auto
      from Cons.IH [OF r(2)] obtain objs where o: "h' = h1 @ objs"
        "concat (map (\<lambda>found. case found of Some es \<Rightarrow> es | None \<Rightarrow> []) rest) =
             [length h1 ..< length h']"
        by auto
      have "[length h ..< length h1] @ [length h1 ..< length h'] = [length h ..< length h']"
        using o1(1) o(1) upt_add_eq_append [of "length h" "length h + length objs1" "length objs"]
        by (simp add: add.assoc)
      with o1 o r(3) show ?thesis by simp
    qed
  qed
qed

lemma fold_concat_found:
  "fold (\<lambda>found allEntries. case found of Some es \<Rightarrow> allEntries @ es | None \<Rightarrow> allEntries) perKey acc =
   acc @ concat (map (\<lambda>found. case found of Some es \<Rightarrow> es | None \<Rightarrow> []) perKey)"
  by (induction perKey arbitrary: acc) (auto split: option.splits)

lemma applyToEntries_other:
  assumes "x \<notin> set es"
  shows "applyToEntries aw es h ! x = h ! x"
  using assms unfolding applyToEntries_def
  by (induction es arbitrary: h) auto


lemma nth_new_objects: "map (\<lambda>i. (h @ xs) ! i) [length h ..< length h + length xs] = xs"
  by (rule nth_equalityI) (simp_all add: nth_append)

lemma upt_two: "[a ..< a + m] @ [a + m ..< a + m + n] = [a ..< a + m + (n::nat)]"
  using upt_add_eq_append [of a "a + m" n] by simp

lemma sync_retry_shape:
  assumes "getSyncRetryDecryptEntries ro completion meanwhile newKeys w = (Inr batch, w')"
  shows "\<exists>objs originals.
           heap w' = heap w @ objs @ map (\<lambda>a. (heap w @ objs) ! a) originals \<and>
           timeline w' = timeline (fold others meanwhile w) \<and>
           batch = [length (heap w) ..< length (heap w) + length objs] @
                   [length (heap w) + length objs ..<
                    length (heap w) + length objs + length originals] \<and>
           originals =
             filter (\<lambda>a. blocked ro ((heap w @ objs) ! a) newKeys \<and>
                         entryId ((heap w @ objs) ! a) \<notin>
                           (\<lambda>s. entryId ((heap w @ objs) ! s)) `
                             {length (heap w) ..< length (heap w) + length objs})
               (timeline_entries w')"
proof -
  from assms obtain perKey h where
    pk: "entriesPerKey ro completion newKeys (heap w) = Inr (perKey, h)"
    by (auto simp: getSyncRetryDecryptEntries_def split: sum.splits)
  from entriesPerKey_Inr [OF pk] obtain objs where
    o: "h = heap w @ objs"
       "concat (map (\<lambda>found. case found of Some es \<Rightarrow> es | None \<Rightarrow> []) perKey) =
          [length (heap w) ..< length h]"
    by auto
  let ?w1 = "fold others meanwhile (w\<lparr>heap := h\<rparr>)"
  let ?stored = "[length (heap w) ..< length (heap w) + length objs]"
  have tl: "timeline ?w1 = timeline (fold others meanwhile w)"
    by (rule fold_others_timeline) simp
  have hp: "heap ?w1 = h" by simp
  have st: "fold (\<lambda>found allEntries.
                 case found of Some es \<Rightarrow> allEntries @ es | None \<Rightarrow> allEntries) perKey [] = ?stored"
    using o by (simp add: fold_concat_found)
  show ?thesis
  proof (cases "timeline ?w1")
    case None
    with assms pk st have r: "batch = ?stored" "w' = ?w1"
      by (auto simp: getSyncRetryDecryptEntries_def Let_def)
    from r None tl hp o(1) show ?thesis
      by (intro exI [of _ objs] exI [of _ "[]"]) (simp add: timeline_entries_def)
  next
    case (Some t)
    with assms pk st obtain rte where
      g: "getAdditionalTimelineRetryEntries ro ?stored newKeys ?w1 = Inr rte"
      by (auto simp: getSyncRetryDecryptEntries_def Let_def split: sum.splits)
    with assms pk st Some have r:
      "batch = ?stored @ [length h ..< length h + length rte]"
      "w' = ?w1\<lparr>heap := h @ map (\<lambda>a. h ! a) rte\<rparr>"
      by (auto simp: getSyncRetryDecryptEntries_def Let_def clone_all_def alloc_def)
    from g Some hp have rte: "rte =
        filter (\<lambda>a. blocked ro (h ! a) newKeys \<and>
                    entryId (h ! a) \<notin> (\<lambda>s. entryId (h ! s)) ` set ?stored)
          (remoteEntries t)"
      by (auto simp: getAdditionalTimelineRetryEntries_def Let_def fold_insert_image
            filterUndecryptedEventEntriesForKeys_def conj_commute
          split: if_splits intro: filter_cong)
    from r Some tl have te: "timeline_entries w' = remoteEntries t" "timeline w' = timeline (fold others meanwhile w)"
      by (simp_all add: timeline_entries_def)
    from r o(1) rte te show ?thesis
      by (intro exI [of _ objs] exI [of _ rte]) simp
  qed
qed

lemma additional_Inr:
  assumes "getAdditionalTimelineRetryEntries ro other keys w = Inr rte"
  shows "rte = filter (\<lambda>a. blocked ro (heap w ! a) keys \<and>
                         entryId (heap w ! a) \<notin> (\<lambda>s. entryId (heap w ! s)) ` set other)
                 (timeline_entries w)"
  using assms
  by (auto simp: getAdditionalTimelineRetryEntries_def Let_def fold_insert_image
        filterUndecryptedEventEntriesForKeys_def timeline_entries_def conj_commute
      split: if_splits option.splits intro: filter_cong)

lemma retryEntries_shape:
  assumes "notifyRoomKey_retryEntries ro completion meanwhile roomKey eventIds w = (Inr batch, w2)"
  shows "heap w2 = heap w @ map new_EventEntry
                    (found_entries (getByEventId ro) (map (\<lambda>i. eventIds ! i) completion)) \<and>
         timeline w2 = timeline (fold others meanwhile w) \<and>
         effects w2 = effects w @ [ReadTxn retry_stores] \<and>
         batch = [length (heap w) ..< length (heap w2)] @
           filter (\<lambda>a. blocked ro (heap w2 ! a) [roomKey] \<and>
                       entryId (heap w2 ! a) \<notin>
                         (\<lambda>s. entryId (heap w2 ! s)) ` set [length (heap w) ..< length (heap w2)])
             (timeline_entries w2)"
proof -
  let ?w1 = "call (ReadTxn retry_stores) w"
  from assms obtain stored h where
    e: "eventIdsToEntries completion eventIds (getByEventId ro) (heap w) = Inr (stored, h)"
    by (auto simp: notifyRoomKey_retryEntries_def Let_def split: option.splits sum.splits)
  from push_entries_Inr [OF e [unfolded eventIdsToEntries_def]]
  have sh: "stored = [length (heap w) ..< length h]"
    "h = heap w @ map new_EventEntry
           (found_entries (getByEventId ro) (map (\<lambda>i. eventIds ! i) completion))"
    by simp_all
  let ?w2 = "fold others meanwhile (?w1\<lparr>heap := h\<rparr>)"
  have tl: "timeline ?w2 = timeline (fold others meanwhile w)"
    by (rule fold_others_timeline) simp
  have k: "heap ?w2 = h" "effects ?w2 = effects w @ [ReadTxn retry_stores]" by simp_all
  show ?thesis
  proof (cases "timeline ?w2")
    case None
    with assms e have "batch = stored" "w2 = ?w2"
      by (auto simp: notifyRoomKey_retryEntries_def Let_def split: option.splits)
    with None tl k sh show ?thesis by (simp add: timeline_entries_def)
  next
    case (Some t)
    with assms e obtain rte where
      r: "getAdditionalTimelineRetryEntries ro stored [roomKey] ?w2 = Inr rte"
         "batch = stored @ rte" "w2 = ?w2"
      by (auto simp: notifyRoomKey_retryEntries_def Let_def split: option.splits sum.splits)
    from additional_Inr [OF r(1)] r(2,3) tl k sh show ?thesis by simp
  qed
qed

lemma step_no_prepare:
  assumes "promise r \<noteq> AwaitReadTxn" and "step aw src es m (r, w) = (r', w')"
  shows "promise r' \<noteq> AwaitReadTxn \<and>
         filter prepare_effect (effects w') = filter prepare_effect (effects w) \<and>
         timeline w' = timeline (case m of Other i \<Rightarrow> others i w | _ \<Rightarrow> w)"
  using assms
  by (cases m; cases "promise r")
     (auto simp: dispose_def Let_def split: option.splits sum.splits if_splits)

lemma run_no_prepare:
  assumes "promise r \<noteq> AwaitReadTxn" and "run aw src es ms (r, w) = (r', w')"
  shows "filter prepare_effect (effects w') = filter prepare_effect (effects w)"
  using assms
proof (induction ms arbitrary: r w)
  case Nil
  then show ?case by simp
next
  case (Cons m ms)
  obtain r1 w1 where s: "step aw src es m (r, w) = (r1, w1)"
    by (cases "step aw src es m (r, w)")
  from step_no_prepare [OF Cons.prems(1) s]
  have a: "promise r1 \<noteq> AwaitReadTxn"
    "filter prepare_effect (effects w1) = filter prepare_effect (effects w)"
    by simp_all
  from Cons.prems(2) s have "run aw src es ms (r1, w1) = (r', w')" by simp
  from Cons.IH [OF a(1) this] a(2) show ?case by simp
qed

lemma retry_request_prepares_once:
  assumes "run aw SourceRetry es ms (decryptEntries SourceRetry es (Some txn) w) = (r, w')"
  shows "filter prepare_effect (effects w') =
         filter prepare_effect (effects w) @
           [PrepareDecryptAll (encrypted_events (heap w) es) SourceRetry]"
proof -
  obtain r0 w0 where d: "decryptEntries SourceRetry es (Some txn) w = (r0, w0)"
    by (cases "decryptEntries SourceRetry es (Some txn) w")
  then have p: "promise r0 \<noteq> AwaitReadTxn"
    and e: "effects w0 = effects w @ [PrepareDecryptAll (encrypted_events (heap w) es) SourceRetry]"
    by (auto simp: decryptEntries_def prepare_step_def)
  from assms d have "run aw SourceRetry es ms (r0, w0) = (r, w')" by simp
  from run_no_prepare [OF p this] e show ?thesis by simp
qed

lemma step_keeps_replace:
  assumes "step aw src es m (r, w) = (r', w')"
  shows "filter replace_effect (effects w') = filter replace_effect (effects w)"
  using assms
  by (cases m; cases "promise r")
     (auto simp: dispose_def prepare_step_def call_def Let_def
           split: option.splits sum.splits if_splits)

lemma run_keeps_replace:
  assumes "run aw src es ms (r, w) = (r', w')"
  shows "filter replace_effect (effects w') = filter replace_effect (effects w)"
  using assms
proof (induction ms arbitrary: r w)
  case Nil
  then show ?case by simp
next
  case (Cons m ms)
  obtain r1 w1 where s: "step aw src es m (r, w) = (r1, w1)"
    by (cases "step aw src es m (r, w)")
  from Cons.prems s have "run aw src es ms (r1, w1) = (r', w')" by simp
  from Cons.IH [OF this] step_keeps_replace [OF s] show ?case by simp
qed

lemma retry_request_keeps_replace:
  assumes "run aw SourceRetry es ms (decryptEntries SourceRetry es (Some txn) w) = (r, w')"
  shows "filter replace_effect (effects w') = filter replace_effect (effects w)"
proof -
  obtain r0 w0 where d: "decryptEntries SourceRetry es (Some txn) w = (r0, w0)"
    by (cases "decryptEntries SourceRetry es (Some txn) w")
  then have e: "filter replace_effect (effects w0) = filter replace_effect (effects w)"
    by (auto simp: decryptEntries_def prepare_step_def call_def)
  from assms d have "run aw SourceRetry es ms (r0, w0) = (r, w')" by simp
  from run_keeps_replace [OF this] e show ?thesis by simp
qed

text \<open>
  A request that nobody disposes resolves only from \<^verbatim>\<open>await writeTxn.complete()\<close>: its
  last calls are \<^verbatim>\<open>applyToEntries\<close> and, with observed events, \<^verbatim>\<open>updateEvents\<close>.
\<close>

lemma complete_resolves:
  assumes "resume_at aw src es (AwaitComplete txn) r w = (r', w')"
    and "promise r' = Resolved"
  shows "\<exists>upd. effects w' = effects w @ [ApplyToEntries es] @ upd \<and>
               (upd = [] \<or> upd = [UpdateEvents es])"
proof (cases "complete_throws aw")
  case (Some err)
  with assms show ?thesis by auto
next
  case None
  show ?thesis
  proof (cases "observedEvents w")
    case True
    with None assms have "effects w' = effects w @ [ApplyToEntries es] @ [UpdateEvents es]"
      by (auto simp: call_def Let_def)
    then show ?thesis by blast
  next
    case False
    with None assms have "effects w' = effects w @ [ApplyToEntries es] @ []"
      by (auto simp: call_def Let_def)
    then show ?thesis by blast
  qed
qed

lemma step_undisposed:
  assumes "m \<noteq> Dispose" and "\<not> cancelled r"
    and "promise r = Resolved \<longrightarrow>
           (\<exists>pre upd. effects w = pre @ [ApplyToEntries es] @ upd \<and>
                      (upd = [] \<or> upd = [UpdateEvents es]))"
    and "step aw src es m (r, w) = (r', w')"
  shows "\<not> cancelled r' \<and>
         (promise r' = Resolved \<longrightarrow>
            (\<exists>pre upd. effects w' = pre @ [ApplyToEntries es] @ upd \<and>
                       (upd = [] \<or> upd = [UpdateEvents es])))"
proof (cases m)
  case Dispose
  with assms(1) show ?thesis by simp
next
  case (Other i)
  with assms have "r' = r" "effects w' = effects w" by (cases i; auto)+
  with assms(2,3) show ?thesis by simp
next
  case Resume
  with assms(4) have s: "resume_at aw src es (promise r) r w = (r', w')" by simp
  show ?thesis
  proof (cases "promise r")
    case (AwaitComplete txn)
    with s have s': "resume_at aw src es (AwaitComplete txn) r w = (r', w')" by simp
    from s' assms(2) have c: "\<not> cancelled r'"
      by (auto simp: Let_def split: option.splits)
    have "\<exists>pre upd. effects w' = pre @ [ApplyToEntries es] @ upd \<and>
                     (upd = [] \<or> upd = [UpdateEvents es])"
      if "promise r' = Resolved"
      using complete_resolves [OF s' that] by blast
    with c show ?thesis by simp
  next
    case Resolved
    with s assms(2,3) show ?thesis by auto
  qed (use s assms(2) in \<open>auto simp: prepare_step_def Let_def
                              split: option.splits sum.splits if_splits\<close>)
qed

lemma run_undisposed:
  assumes "Dispose \<notin> set ms" and "\<not> cancelled r"
    and "promise r = Resolved \<longrightarrow>
           (\<exists>pre upd. effects w = pre @ [ApplyToEntries es] @ upd \<and>
                      (upd = [] \<or> upd = [UpdateEvents es]))"
    and "run aw src es ms (r, w) = (r', w')"
  shows "promise r' = Resolved \<longrightarrow>
            (\<exists>pre upd. effects w' = pre @ [ApplyToEntries es] @ upd \<and>
                       (upd = [] \<or> upd = [UpdateEvents es]))"
  using assms
proof (induction ms arbitrary: r w)
  case Nil
  then show ?case by simp
next
  case (Cons m ms)
  obtain r1 w1 where s: "step aw src es m (r, w) = (r1, w1)"
    by (cases "step aw src es m (r, w)")
  from Cons.prems(1) have m: "m \<noteq> Dispose" and ms: "Dispose \<notin> set ms" by auto
  from step_undisposed [OF m Cons.prems(2,3) s]
  have a: "\<not> cancelled r1"
    and b: "promise r1 = Resolved \<longrightarrow>
           (\<exists>pre upd. effects w1 = pre @ [ApplyToEntries es] @ upd \<and>
                      (upd = [] \<or> upd = [UpdateEvents es]))"
    by blast+
  from Cons.prems(4) s have "run aw src es ms (r1, w1) = (r', w')" by simp
  from Cons.IH [OF ms a b this] show ?case .
qed

lemma retry_request_resolves:
  assumes "run aw SourceRetry es (undisposed sched)
             (decryptEntries SourceRetry es (Some txn) w) = (r, w')"
    and "promise r = Resolved"
  shows "\<exists>pre upd. effects w' = pre @ [ApplyToEntries es] @ upd \<and>
                   (upd = [] \<or> upd = [UpdateEvents es])"
proof -
  obtain r0 w0 where d: "decryptEntries SourceRetry es (Some txn) w = (r0, w0)"
    by (cases "decryptEntries SourceRetry es (Some txn) w")
  then have c: "\<not> cancelled r0" and p: "promise r0 \<noteq> Resolved"
    by (auto simp: decryptEntries_def prepare_step_def)
  from p have i: "promise r0 = Resolved \<longrightarrow>
           (\<exists>pre upd. effects w0 = pre @ [ApplyToEntries es] @ upd \<and>
                      (upd = [] \<or> upd = [UpdateEvents es]))"
    by simp
  have u: "Dispose \<notin> set (undisposed sched)" by (simp add: undisposed_def)
  from assms(1) d have "run aw SourceRetry es (undisposed sched) (r0, w0) = (r, w')" by simp
  from run_undisposed [OF u c i this] assms(2) show ?thesis by simp
qed

lemma notifyRoomKey_decrypted_effects:
  assumes "notifyRoomKey_decrypted ro later es w = (res, w')"
  shows "effects w' =
           effects w @ (if timeline w \<noteq> None then [ReplaceEntries es] else []) @
             [ApplyTimelineEntries es, WriteAndApplyData] @
             (if writeAndApplyData_result ro = Inr True then [EmitUpdate] else []) \<and>
         timeline w' = timeline (fold others later w) \<and>
         res = (case writeAndApplyData_result ro of
                  Inl err \<Rightarrow> Thrown err
                | Inr changed \<Rightarrow> Returned ())"
proof -
  let ?w1 = "case timeline w of Some t \<Rightarrow> call (ReplaceEntries es) w | None \<Rightarrow> w"
  let ?w2 = "call WriteAndApplyData (call (ApplyTimelineEntries es) ?w1)"
  have "timeline ?w2 = timeline w" by (simp add: call_def split: option.splits)
  then have t: "timeline (fold others later ?w2) = timeline (fold others later w)"
    by (rule fold_others_timeline)
  have e: "effects ?w2 =
      effects w @ (if timeline w \<noteq> None then [ReplaceEntries es] else []) @
        [ApplyTimelineEntries es, WriteAndApplyData]"
    by (simp add: call_def split: option.splits)
  from assms have w': "w' = (if writeAndApplyData_result ro = Inr True
                            then call EmitUpdate (fold others later ?w2)
                            else fold others later ?w2)"
    and r: "res = (case writeAndApplyData_result ro of
                  Inl err \<Rightarrow> Thrown err
                | Inr changed \<Rightarrow> Returned ())"
    by (auto simp: notifyRoomKey_decrypted_def Let_def split: sum.splits if_splits)
  from w' e have "effects w' =
           effects w @ (if timeline w \<noteq> None then [ReplaceEntries es] else []) @
             [ApplyTimelineEntries es, WriteAndApplyData] @
             (if writeAndApplyData_result ro = Inr True then [EmitUpdate] else [])"
    by (simp add: call_def)
  moreover from w' t have "timeline w' = timeline (fold others later w)"
    by (simp add: call_def)
  ultimately show ?thesis using r by simp
qed

lemma notifyRoomKey_effects:
  assumes "roomEncryption w"
    and "notifyRoomKey_retryEntries ro completion meanwhile roomKey eventIds w = (Inr batch, w2)"
    and "run aw SourceRetry batch (undisposed sched)
           (decryptEntries SourceRetry batch (Some \<lparr>stores = retry_stores, pending = []\<rparr>) w2) =
         (r, w3)"
    and "notifyRoomKey ro aw completion meanwhile sched later roomKey eventIds w = (res, w')"
    and "batch \<noteq> []"
  shows "filter prepare_effect (effects w3) =
           filter prepare_effect (effects w2) @
             [PrepareDecryptAll (encrypted_events (heap w2) batch) SourceRetry]"
    and "filter replace_effect (effects w3) = filter replace_effect (effects w2)"
    and "promise r = Resolved \<Longrightarrow>
           (\<exists>pre upd. effects w3 = pre @ [ApplyToEntries batch] @ upd \<and>
                      (upd = [] \<or> upd = [UpdateEvents batch])) \<and>
           effects w' =
             effects w3 @ (if timeline w3 \<noteq> None then [ReplaceEntries batch] else []) @
               [ApplyTimelineEntries batch, WriteAndApplyData] @
               (if writeAndApplyData_result ro = Inr True then [EmitUpdate] else []) \<and>
           timeline w' = timeline (fold others later w3) \<and>
           res = (case writeAndApplyData_result ro of
                    Inl err \<Rightarrow> Thrown err
                  | Inr changed \<Rightarrow> Returned ())"
    and "promise r \<noteq> Resolved \<Longrightarrow> w' = w3 \<and> res \<noteq> Returned ()"
proof -
  show "filter prepare_effect (effects w3) =
           filter prepare_effect (effects w2) @
             [PrepareDecryptAll (encrypted_events (heap w2) batch) SourceRetry]"
    by (rule retry_request_prepares_once [OF assms(3)])
  show "filter replace_effect (effects w3) = filter replace_effect (effects w2)"
    by (rule retry_request_keeps_replace [OF assms(3)])
next
  assume res: "promise r = Resolved"
  with assms have d: "notifyRoomKey_decrypted ro later batch w3 = (res, w')"
    by (simp add: notifyRoomKey_def)
  from notifyRoomKey_decrypted_effects [OF d] retry_request_resolves [OF assms(3) res]
  show "(\<exists>pre upd. effects w3 = pre @ [ApplyToEntries batch] @ upd \<and>
                      (upd = [] \<or> upd = [UpdateEvents batch])) \<and>
           effects w' =
             effects w3 @ (if timeline w3 \<noteq> None then [ReplaceEntries batch] else []) @
               [ApplyTimelineEntries batch, WriteAndApplyData] @
               (if writeAndApplyData_result ro = Inr True then [EmitUpdate] else []) \<and>
           timeline w' = timeline (fold others later w3) \<and>
           res = (case writeAndApplyData_result ro of
                    Inl err \<Rightarrow> Thrown err
                  | Inr changed \<Rightarrow> Returned ())"
    by (intro conjI) (elim conjE, assumption)+
next
  assume "promise r \<noteq> Resolved"
  with assms show "w' = w3 \<and> res \<noteq> Returned ()"
    by (auto simp: notifyRoomKey_def split: promise_state.splits)
qed

lemma completion_ids:
  assumes "distinct eventIds" and "distinct completion"
    and "set completion = {..<length eventIds}"
  shows "set (map (\<lambda>i. eventIds ! i) completion) = set eventIds"
    and "distinct (map (\<lambda>i. eventIds ! i) completion)"
proof -
  have "(\<lambda>i. eventIds ! i) ` {..<length eventIds} = set eventIds"
    by (auto simp: in_set_conv_nth)
  with assms(3) show "set (map (\<lambda>i. eventIds ! i) completion) = set eventIds"
    by simp
  have "inj_on (\<lambda>i. eventIds ! i) (set completion)"
    using assms(1,3) by (auto simp: inj_on_def nth_eq_iff_index_eq)
  with assms(2) show "distinct (map (\<lambda>i. eventIds ! i) completion)"
    by (simp add: distinct_map)
qed

lemma stored_ids:
  assumes "\<forall>i se. get i = Inr (Some se) \<longrightarrow> stored_id se = i"
  shows "map (\<lambda>s. entryId ((h @ map new_EventEntry (found_entries get ids)) ! s))
           [length h ..< length h + length (found_entries get ids)] =
         filter (\<lambda>i. \<exists>se. get i = Inr (Some se)) ids"
proof -
  let ?objs = "map new_EventEntry (found_entries get ids)"
  have "map (\<lambda>s. entryId ((h @ ?objs) ! s)) [length h ..< length h + length ?objs] =
        map entryId (map (\<lambda>s. (h @ ?objs) ! s) [length h ..< length h + length ?objs])"
    by simp
  also have "\<dots> = map entryId ?objs" by (simp only: nth_new_objects)
  also have "\<dots> = map stored_id (found_entries get ids)"
    by (simp add: new_EventEntry_def comp_def)
  also have "\<dots> = filter (\<lambda>i. \<exists>se. get i = Inr (Some se)) ids"
    by (rule found_entries_ids [OF assms])
  finally show ?thesis by simp
qed

lemma distinct_append_map:
  assumes "distinct (map f xs)" and "distinct (map f ys)" and "f ` set xs \<inter> f ` set ys = {}"
  shows "distinct (map f (xs @ ys))"
  using assms by simp

lemma image_disjoint_filter:
  "f ` set xs \<inter> f ` set (filter (\<lambda>a. P a \<and> f a \<notin> f ` set xs) ys) = {}"
proof (rule equals0I)
  fix z
  assume z: "z \<in> f ` set xs \<inter> f ` set (filter (\<lambda>a. P a \<and> f a \<notin> f ` set xs) ys)"
  from z have z1: "z \<in> f ` set xs" by (rule IntD1)
  from z have "z \<in> f ` set (filter (\<lambda>a. P a \<and> f a \<notin> f ` set xs) ys)" by (rule IntD2)
  then obtain y where y: "y \<in> set (filter (\<lambda>a. P a \<and> f a \<notin> f ` set xs) ys)" "z = f y"
    by (elim imageE)
  from y(1) have nf: "f y \<notin> f ` set xs"
    unfolding set_filter mem_Collect_eq by (elim conjE)
  from nf z1 [unfolded y(2)] show False by (rule notE)
qed

lemmas retry_example_defs = notifyRoomKey_def notifyRoomKey_retryEntries_def
  notifyRoomKey_decrypted_def eventIdsToEntries_def getAdditionalTimelineRetryEntries_def
  filterUndecryptedEventEntriesForKeys_def getSyncRetryDecryptEntries_def clone_all_def alloc_def
  example_retry_def example_key_def example_room2_def new_EventEntry_def retry_stores_def
  undisposed_def timeline_entries_def

subsection \<open>The batch of a sync\<close>

text \<open>
  Claim C8. The batch that \<^verbatim>\<open>_getSyncRetryDecryptEntries\<close> returns consists of exactly
  the objects it created: the entries made from stored events and, behind them, the
  clones of the additional timeline entries, each with the fields of its original. The
  objects that existed before are as they were, no entry of the live timeline is in the
  batch, and applying a decryption to the batch leaves every timeline entry unchanged.
  The entries the timeline shows are taken to be objects that exist when the method is
  called.
\<close>

theorem sync_retry_entries_fresh:
  assumes "getSyncRetryDecryptEntries ro completion meanwhile newKeys w = (Inr batch, w')"
    and "\<forall>a \<in> set (timeline_entries (fold others meanwhile w)). a < length (heap w)"
  shows "batch = [length (heap w) ..< length (heap w')] \<and>
         take (length (heap w)) (heap w') = heap w \<and>
         set batch \<inter> set (timeline_entries w') = {} \<and>
         (\<forall>a \<in> set (timeline_entries w'). applyToEntries aw batch (heap w') ! a = heap w ! a) \<and>
         (\<exists>stored copies.
            batch = stored @ copies \<and>
            map (\<lambda>c. heap w' ! c) copies =
              map (\<lambda>a. heap w ! a)
                (filter (\<lambda>a. blocked ro (heap w ! a) newKeys \<and>
                            entryId (heap w ! a) \<notin> (\<lambda>s. entryId (heap w' ! s)) ` set stored)
                   (timeline_entries w')))"
proof -
  from sync_retry_shape [OF assms(1)] obtain objs originals where
    s: "heap w' = heap w @ objs @ map (\<lambda>a. (heap w @ objs) ! a) originals"
       "timeline w' = timeline (fold others meanwhile w)"
       "batch = [length (heap w) ..< length (heap w) + length objs] @
                   [length (heap w) + length objs ..<
                    length (heap w) + length objs + length originals]"
       "originals =
             filter (\<lambda>a. blocked ro ((heap w @ objs) ! a) newKeys \<and>
                         entryId ((heap w @ objs) ! a) \<notin>
                           (\<lambda>s. entryId ((heap w @ objs) ! s)) `
                             {length (heap w) ..< length (heap w) + length objs})
               (timeline_entries w')"
    by blast
  let ?stored = "[length (heap w) ..< length (heap w) + length objs]"
  let ?copies = "[length (heap w) + length objs ..<
                    length (heap w) + length objs + length originals]"
  from s(2) have te: "timeline_entries w' = timeline_entries (fold others meanwhile w)"
    by (simp add: timeline_entries_def)
  with assms(2) have old: "\<forall>a \<in> set (timeline_entries w'). a < length (heap w)" by simp
  have b: "batch = [length (heap w) ..< length (heap w')]"
    using s(1,3) upt_two [of "length (heap w)" "length objs" "length originals"]
    by (simp add: add.assoc)
  have t: "take (length (heap w)) (heap w') = heap w" using s(1) by simp
  from b old have d: "set batch \<inter> set (timeline_entries w') = {}" by auto
  have e: "\<forall>a \<in> set (timeline_entries w'). applyToEntries aw batch (heap w') ! a = heap w ! a"
  proof
    fix a assume a: "a \<in> set (timeline_entries w')"
    with old have lt: "a < length (heap w)" by simp
    with b have "a \<notin> set batch" by simp
    from applyToEntries_other [OF this] have "applyToEntries aw batch (heap w') ! a = heap w' ! a" .
    also from s(1) lt have "\<dots> = heap w ! a" by (simp add: nth_append)
    finally show "applyToEntries aw batch (heap w') ! a = heap w ! a" .
  qed
  have orig_old: "\<forall>a \<in> set originals. a < length (heap w)"
    using s(4) old by auto
  have c1: "map (\<lambda>c. heap w' ! c) ?copies = map (\<lambda>a. (heap w @ objs) ! a) originals"
    using nth_new_objects [of "heap w @ objs" "map (\<lambda>a. (heap w @ objs) ! a) originals"] s(1)
    by simp
  have c2: "map (\<lambda>a. (heap w @ objs) ! a) originals = map (\<lambda>a. heap w ! a) originals"
    using orig_old by (simp add: nth_append)
  have st: "\<forall>q \<in> set ?stored. heap w' ! q = (heap w @ objs) ! q"
    using s(1) by (auto simp: nth_append)
  have c3: "originals =
      filter (\<lambda>a. blocked ro (heap w ! a) newKeys \<and>
                  entryId (heap w ! a) \<notin> (\<lambda>s. entryId (heap w' ! s)) ` set ?stored)
        (timeline_entries w')"
  proof -
    have i: "(\<lambda>s. entryId (heap w' ! s)) ` set ?stored =
        (\<lambda>s. entryId ((heap w @ objs) ! s)) ` {length (heap w) ..< length (heap w) + length objs}"
      using st by (auto intro!: image_cong)
    show ?thesis
      apply (subst s(4))
      apply (rule filter_cong [OF refl])
      using old i apply (simp add: nth_append)
      done
  qed
  from c1 c2 c3 s(3) have "\<exists>stored copies.
            batch = stored @ copies \<and>
            map (\<lambda>c. heap w' ! c) copies =
              map (\<lambda>a. heap w ! a)
                (filter (\<lambda>a. blocked ro (heap w ! a) newKeys \<and>
                            entryId (heap w ! a) \<notin> (\<lambda>s. entryId (heap w' ! s)) ` set stored)
                   (timeline_entries w'))"
    by (intro exI [of _ ?stored] exI [of _ ?copies]) simp
  with b t d e show ?thesis by blast
qed

theorem sync_retry_entries_fresh_witness:
  "fst (getSyncRetryDecryptEntries example_retry (\<lambda>k. [0]) [] [example_key] example_room2) =
     Inr [2, 3] \<and>
   timeline_entries (snd (getSyncRetryDecryptEntries example_retry (\<lambda>k. [0]) [] [example_key]
     example_room2)) = [0, 1] \<and>
   set [2, 3] \<inter> set (timeline_entries (snd (getSyncRetryDecryptEntries example_retry
     (\<lambda>k. [0]) [] [example_key] example_room2))) = {} \<and>
   take 2 (heap (snd (getSyncRetryDecryptEntries example_retry (\<lambda>k. [0]) [] [example_key]
     example_room2))) = heap example_room2 \<and>
   applyToEntries example_outcomes [2, 3]
     (heap (snd (getSyncRetryDecryptEntries example_retry (\<lambda>k. [0]) [] [example_key]
        example_room2))) ! 1 = heap example_room2 ! 1"
proof -
  let ?z = "getSyncRetryDecryptEntries example_retry (\<lambda>k. [0]) [] [example_key] example_room2"
  have fz: "fst ?z = Inr [2, 3]" by (simp add: retry_example_defs example_defs)
  then have z: "?z = (Inr [2, 3], snd ?z)" by (metis prod.collapse)
  have te: "timeline_entries (snd ?z) = [0, 1]" by (simp add: retry_example_defs example_defs)
  have old: "\<forall>a \<in> set (timeline_entries (fold others [] example_room2)).
               a < length (heap example_room2)"
    by (simp add: retry_example_defs example_defs)
  have len: "length (heap example_room2) = 2" by (simp add: retry_example_defs example_defs)
  note fresh = sync_retry_entries_fresh [OF z old, of example_outcomes]
  from fresh have d: "set [2, 3] \<inter> set (timeline_entries (snd ?z)) = {}"
    by (elim conjE)
  from fresh
  have t: "take (length (heap example_room2)) (heap (snd ?z)) = heap example_room2"
    by (elim conjE)
  from fresh
  have a: "\<forall>a \<in> set (timeline_entries (snd ?z)).
             applyToEntries example_outcomes [2, 3] (heap (snd ?z)) ! a = heap example_room2 ! a"
    by (elim conjE)
  from a te have "applyToEntries example_outcomes [2, 3] (heap (snd ?z)) ! 1 =
      heap example_room2 ! 1"
    by simp
  with fz te d t len show ?thesis by simp
qed

subsection \<open>The batch of a room key notification\<close>

text \<open>
  Claim C4, as stated, fails for an event-id list that repeats an id: each occurrence is
  looked up and wrapped on its own, so the batch holds two entries of the same event and
  both ciphertexts go to \<^verbatim>\<open>prepareDecryptAll\<close>.
\<close>

theorem notifyRoomKey_duplicate_counterexample:
  "fst (notifyRoomKey_retryEntries example_retry [0, 1] [] example_key [''$e1'', ''$e1'']
          example_room) = Inr [1, 2] \<and>
   map (\<lambda>a. entryId (heap (snd (notifyRoomKey_retryEntries example_retry [0, 1] []
          example_key [''$e1'', ''$e1''] example_room)) ! a)) [1, 2] = [''$e1'', ''$e1''] \<and>
   filter prepare_effect (effects (snd (notifyRoomKey example_retry example_outcomes [0, 1] []
          [Resume, Resume, Resume, Resume, Resume, Resume] [] example_key [''$e1'', ''$e1'']
          example_room))) =
     [PrepareDecryptAll [''ciphertext 1'', ''ciphertext 1''] SourceRetry]"
  by (simp add: retry_example_defs example_defs)

text \<open>
  Claim C4, amended: for an event-id list without repeated ids, on a room whose
  encryption is set and whose timeline shows at most one entry per event id (the lookups
  answer, in any order, stored entries under the id asked for). The value of
  \<^verbatim>\<open>retryEntries\<close> that \<^verbatim>\<open>notifyRoomKey\<close> submits is made of new entries for exactly the
  given ids found in storage, followed by every timeline entry blocked on the key whose
  id is not among them; no event id occurs twice in it. A batch that is not empty goes
  to \<^verbatim>\<open>prepareDecryptAll\<close> once, as one batch with the source \<^verbatim>\<open>Retry\<close>. On completion of
  the decryption request, that is when its promise has resolved, whose last calls are
  \<^verbatim>\<open>applyToEntries\<close> on the batch and possibly \<^verbatim>\<open>updateEvents\<close>, the next call of
  \<^verbatim>\<open>notifyRoomKey\<close> is \<^verbatim>\<open>replaceEntries\<close> with the batch, on the timeline that is open
  when \<^verbatim>\<open>notifyRoomKey\<close> is resumed, followed by the update of the summary; with no
  timeline open at that moment only the summary is updated. \<^verbatim>\<open>replaceEntries\<close> is called
  at no other point: not before the request has resolved, not when it is rejected, and not
  for a timeline that opens while \<^verbatim>\<open>writeAndApplyData\<close> is awaited.
\<close>

theorem notifyRoomKey_retry_batch:
  assumes "roomEncryption w"
    and "distinct eventIds"
    and "distinct completion" and "set completion = {..<length eventIds}"
    and "\<forall>i se. getByEventId ro i = Inr (Some se) \<longrightarrow> stored_id se = i"
    and "distinct (map (\<lambda>a. entryId (heap w ! a)) (timeline_entries (fold others meanwhile w)))"
    and "\<forall>a \<in> set (timeline_entries (fold others meanwhile w)). a < length (heap w)"
    and "notifyRoomKey_retryEntries ro completion meanwhile roomKey eventIds w = (Inr batch, w2)"
    and "run aw SourceRetry batch (undisposed sched)
           (decryptEntries SourceRetry batch (Some \<lparr>stores = retry_stores, pending = []\<rparr>) w2) =
         (r, w3)"
    and "notifyRoomKey ro aw completion meanwhile sched later roomKey eventIds w = (res, w')"
  shows "(\<exists>stored.
            batch = stored @
              filter (\<lambda>a. blocked ro (heap w2 ! a) [roomKey] \<and>
                          entryId (heap w2 ! a) \<notin> (\<lambda>s. entryId (heap w2 ! s)) ` set stored)
                (timeline_entries w2) \<and>
            (\<lambda>s. entryId (heap w2 ! s)) ` set stored =
              {i \<in> set eventIds. \<exists>se. getByEventId ro i = Inr (Some se)} \<and>
            set stored \<inter> set (timeline_entries w2) = {}) \<and>
         distinct (map (\<lambda>a. entryId (heap w2 ! a)) batch) \<and>
         (batch \<noteq> [] \<longrightarrow>
            filter prepare_effect (effects w') =
              filter prepare_effect (effects w) @
                [PrepareDecryptAll (encrypted_events (heap w2) batch) SourceRetry]) \<and>
         (batch \<noteq> [] \<and> promise r = Resolved \<longrightarrow>
            (\<exists>pre upd. effects w3 = pre @ [ApplyToEntries batch] @ upd \<and>
                       (upd = [] \<or> upd = [UpdateEvents batch])) \<and>
            effects w' =
              effects w3 @ (if timeline w3 \<noteq> None then [ReplaceEntries batch] else []) @
                [ApplyTimelineEntries batch, WriteAndApplyData] @
                (if writeAndApplyData_result ro = Inr True then [EmitUpdate] else []) \<and>
            filter replace_effect (effects w3) = filter replace_effect (effects w) \<and>
            timeline w' = timeline (fold others later w3) \<and>
            res = (case writeAndApplyData_result ro of
                     Inl err \<Rightarrow> Thrown err
                   | Inr changed \<Rightarrow> Returned ())) \<and>
         (batch \<noteq> [] \<and> promise r \<noteq> Resolved \<longrightarrow>
            res \<noteq> Returned () \<and> w' = w3 \<and>
            filter replace_effect (effects w') = filter replace_effect (effects w)) \<and>
         (batch = [] \<longrightarrow>
            res = Returned () \<and> w' = w2 \<and>
            filter replace_effect (effects w') = filter replace_effect (effects w))"
proof -
  let ?ids = "map (\<lambda>i. eventIds ! i) completion"
  let ?found = "found_entries (getByEventId ro) ?ids"
  let ?stored = "[length (heap w) ..< length (heap w2)]"
  let ?idf = "\<lambda>a. entryId (heap w2 ! a)"
  let ?extra = "filter (\<lambda>a. blocked ro (heap w2 ! a) [roomKey] \<and> ?idf a \<notin> ?idf ` set ?stored)
                  (timeline_entries w2)"
  from retryEntries_shape [OF assms(8)]
  have h2: "heap w2 = heap w @ map new_EventEntry ?found"
    and t2: "timeline w2 = timeline (fold others meanwhile w)"
    and e2: "effects w2 = effects w @ [ReadTxn retry_stores]"
    and b: "batch = ?stored @ ?extra"
    by simp_all
  from t2 have te: "timeline_entries w2 = timeline_entries (fold others meanwhile w)"
    by (simp add: timeline_entries_def)
  from h2 have len: "length (heap w2) = length (heap w) + length ?found" by simp
  from stored_ids [OF assms(5), of "heap w" ?ids] h2 len
  have sid: "map ?idf ?stored = filter (\<lambda>i. \<exists>se. getByEventId ro i = Inr (Some se)) ?ids"
    by simp
  from completion_ids [OF assms(2,3,4)]
  have ci: "set ?ids = set eventIds" "distinct ?ids" by simp_all
  have img: "?idf ` set ?stored = {i \<in> set eventIds. \<exists>se. getByEventId ro i = Inr (Some se)}"
  proof -
    have "?idf ` set ?stored = set (map ?idf ?stored)" by simp
    also have "\<dots> = {i \<in> set ?ids. \<exists>se. getByEventId ro i = Inr (Some se)}"
      by (simp only: sid set_filter)
    finally show ?thesis using ci(1) by simp
  qed
  from assms(7) te have old: "\<forall>a \<in> set (timeline_entries w2). a < length (heap w)" by simp
  then have disj: "set ?stored \<inter> set (timeline_entries w2) = {}" by auto
  have same: "\<forall>a \<in> set (timeline_entries w2). heap w2 ! a = heap w ! a"
    using old h2 by (simp add: nth_append)
  have d1: "distinct (map ?idf ?stored)"
    using ci(2) by (simp only: sid distinct_filter)
  have meq: "map ?idf (timeline_entries w2) =
      map (\<lambda>a. entryId (heap w ! a)) (timeline_entries w2)"
    using same by simp
  have "distinct (map ?idf (timeline_entries w2))"
    unfolding meq using assms(6) te by simp
  then have d2: "distinct (map ?idf ?extra)" by (rule distinct_map_filter)
  have d3: "?idf ` set ?stored \<inter> ?idf ` set ?extra = {}"
    by (rule image_disjoint_filter [of ?idf ?stored "\<lambda>a. blocked ro (heap w2 ! a) [roomKey]"
          "timeline_entries w2"])
  have dist: "distinct (map ?idf batch)"
    unfolding b by (rule distinct_append_map [of ?idf ?stored ?extra, OF d1 d2 d3])
  have first: "\<exists>stored.
            batch = stored @
              filter (\<lambda>a. blocked ro (heap w2 ! a) [roomKey] \<and> ?idf a \<notin> ?idf ` set stored)
                (timeline_entries w2) \<and>
            ?idf ` set stored = {i \<in> set eventIds. \<exists>se. getByEventId ro i = Inr (Some se)} \<and>
            set stored \<inter> set (timeline_entries w2) = {}"
    by (intro exI [of _ ?stored] conjI) (rule b, rule img, rule disj)
  from e2 have p2: "filter prepare_effect (effects w2) = filter prepare_effect (effects w)"
    and r2: "filter replace_effect (effects w2) = filter replace_effect (effects w)"
    by simp_all
  note eff = notifyRoomKey_effects [OF assms(1,8,9,10)]
  have r3: "filter replace_effect (effects w3) = filter replace_effect (effects w)"
    if "batch \<noteq> []"
    using eff(2) [OF that] r2 by simp
  have resolved: "(\<exists>pre upd. effects w3 = pre @ [ApplyToEntries batch] @ upd \<and>
                       (upd = [] \<or> upd = [UpdateEvents batch])) \<and>
            effects w' =
              effects w3 @ (if timeline w3 \<noteq> None then [ReplaceEntries batch] else []) @
                [ApplyTimelineEntries batch, WriteAndApplyData] @
                (if writeAndApplyData_result ro = Inr True then [EmitUpdate] else []) \<and>
            filter replace_effect (effects w3) = filter replace_effect (effects w) \<and>
            timeline w' = timeline (fold others later w3) \<and>
            res = (case writeAndApplyData_result ro of
                     Inl err \<Rightarrow> Thrown err
                   | Inr changed \<Rightarrow> Returned ())"
    if "batch \<noteq> [] \<and> promise r = Resolved"
  proof -
    from that have ne: "batch \<noteq> []" and rs: "promise r = Resolved" by simp_all
    from eff(3) [OF ne rs] r3 [OF ne] show ?thesis
      by (intro conjI) (elim conjE, assumption)+
  qed
  have failed: "res \<noteq> Returned () \<and> w' = w3 \<and>
            filter replace_effect (effects w') = filter replace_effect (effects w)"
    if "batch \<noteq> [] \<and> promise r \<noteq> Resolved"
  proof -
    from that have ne: "batch \<noteq> []" and rs: "promise r \<noteq> Resolved" by simp_all
    from eff(4) [OF ne rs] r3 [OF ne] show ?thesis by simp
  qed
  have eff1: "filter prepare_effect (effects w') =
              filter prepare_effect (effects w) @
                [PrepareDecryptAll (encrypted_events (heap w2) batch) SourceRetry]"
    if ne: "batch \<noteq> []"
  proof (cases "promise r = Resolved")
    case True
    with resolved ne have "effects w' =
              effects w3 @ (if timeline w3 \<noteq> None then [ReplaceEntries batch] else []) @
                [ApplyTimelineEntries batch, WriteAndApplyData] @
                (if writeAndApplyData_result ro = Inr True then [EmitUpdate] else [])"
      by blast
    then have "filter prepare_effect (effects w') = filter prepare_effect (effects w3)"
      by simp
    with eff(1) [OF ne] p2 show ?thesis by simp
  next
    case False
    with failed ne have "w' = w3" by blast
    with eff(1) [OF ne] p2 show ?thesis by simp
  qed
  have empty: "res = Returned () \<and> w' = w2 \<and>
            filter replace_effect (effects w') = filter replace_effect (effects w)"
    if "batch = []"
  proof -
    from assms(1,8,10) that have "res = Returned ()" "w' = w2"
      by (simp_all add: notifyRoomKey_def)
    with r2 show ?thesis by simp
  qed
  have A: "batch \<noteq> [] \<longrightarrow>
            filter prepare_effect (effects w') =
              filter prepare_effect (effects w) @
                [PrepareDecryptAll (encrypted_events (heap w2) batch) SourceRetry]"
    by (rule impI) (rule eff1)
  note B = impI [OF resolved]
  note C = impI [OF failed]
  note D = impI [OF empty]
  from first dist A B C D show ?thesis by (intro conjI)
qed

theorem notifyRoomKey_retry_batch_witness:
  "roomEncryption example_room2 \<and> distinct [''$e1'', ''$e9''] \<and>
   fst (notifyRoomKey_retryEntries example_retry [1, 0] [] example_key [''$e1'', ''$e9'']
          example_room2) = Inr [2, 1] \<and>
   distinct (map (\<lambda>a. entryId (heap (snd (notifyRoomKey_retryEntries example_retry [1, 0] []
          example_key [''$e1'', ''$e9''] example_room2)) ! a)) [2, 1]) \<and>
   promise (fst (run example_outcomes SourceRetry [2, 1]
          (undisposed [Resume, Resume, Resume, Resume, Resume, Resume])
          (decryptEntries SourceRetry [2, 1] (Some \<lparr>stores = retry_stores, pending = []\<rparr>)
             (snd (notifyRoomKey_retryEntries example_retry [1, 0] [] example_key
                [''$e1'', ''$e9''] example_room2))))) = Resolved \<and>
   fst (notifyRoomKey example_retry example_outcomes [1, 0] []
          [Resume, Resume, Resume, Resume, Resume, Resume] [SetTimeline None] example_key
          [''$e1'', ''$e9''] example_room2) = Returned () \<and>
   filter replace_effect (effects (snd (notifyRoomKey example_retry example_outcomes
          [1, 0] [] [Resume, Resume, Resume, Resume, Resume, Resume] [SetTimeline None]
          example_key [''$e1'', ''$e9''] example_room2))) = [ReplaceEntries [2, 1]] \<and>
   timeline (snd (notifyRoomKey example_retry example_outcomes
          [1, 0] [] [Resume, Resume, Resume, Resume, Resume, Resume] [SetTimeline None]
          example_key [''$e1'', ''$e9''] example_room2)) = None \<and>
   filter replace_effect (effects (snd (notifyRoomKey example_retry example_outcomes [1, 0] []
          [Resume, Resume, Resume, Resume, Resume, Resume, Other (SetTimeline None)]
          [SetTimeline (Some \<lparr>remoteEntries = [1]\<rparr>)] example_key [''$e1'', ''$e9'']
          example_room2))) = [] \<and>
   timeline (snd (notifyRoomKey example_retry example_outcomes [1, 0] []
          [Resume, Resume, Resume, Resume, Resume, Resume, Other (SetTimeline None)]
          [SetTimeline (Some \<lparr>remoteEntries = [1]\<rparr>)] example_key [''$e1'', ''$e9'']
          example_room2)) = Some \<lparr>remoteEntries = [1]\<rparr>"
proof -
  let ?x = "notifyRoomKey_retryEntries example_retry [1, 0] [] example_key [''$e1'', ''$e9'']
          example_room2"
  let ?z = "run example_outcomes SourceRetry [2, 1]
          (undisposed [Resume, Resume, Resume, Resume, Resume, Resume])
          (decryptEntries SourceRetry [2, 1] (Some \<lparr>stores = retry_stores, pending = []\<rparr>)
             (snd ?x))"
  let ?y = "notifyRoomKey example_retry example_outcomes [1, 0] []
          [Resume, Resume, Resume, Resume, Resume, Resume] [SetTimeline None] example_key
          [''$e1'', ''$e9''] example_room2"
  have enc: "roomEncryption example_room2" by (simp add: retry_example_defs example_defs)
  have ids: "distinct [''$e1'', ''$e9'']" by simp
  have c1: "distinct [1, 0::nat]" by simp
  have c2: "set [1, 0::nat] = {..<length [''$e1'', ''$e9'']}" by auto
  have wf: "\<forall>i se. getByEventId example_retry i = Inr (Some se) \<longrightarrow> stored_id se = i"
    by (auto simp: example_retry_def split: if_splits)
  have t1: "distinct (map (\<lambda>a. entryId (heap example_room2 ! a))
              (timeline_entries (fold others [] example_room2)))"
    by (simp add: retry_example_defs example_defs)
  have t2: "\<forall>a \<in> set (timeline_entries (fold others [] example_room2)).
              a < length (heap example_room2)"
    by (simp add: retry_example_defs example_defs)
  have fx: "fst ?x = Inr [2, 1]" by (simp add: retry_example_defs example_defs)
  then have x: "?x = (Inr [2, 1], snd ?x)" by (metis prod.collapse)
  have z: "?z = (fst ?z, snd ?z)" by simp
  have pz: "promise (fst ?z) = Resolved"
    by (simp add: retry_example_defs example_defs undisposed_def)
  have tz: "timeline (snd ?z) \<noteq> None"
    by (simp add: retry_example_defs example_defs undisposed_def)
  have rw: "filter replace_effect (effects example_room2) = []"
    by (simp add: retry_example_defs example_defs)
  have ok: "writeAndApplyData_result example_retry = Inr True \<or>
            writeAndApplyData_result example_retry = Inr False"
    by (simp add: retry_example_defs example_defs)
  have y: "?y = (fst ?y, snd ?y)" by simp
  note inst = notifyRoomKey_retry_batch [OF enc ids c1 c2 wf t1 t2 x z y]
  from inst have d: "distinct (map (\<lambda>a. entryId (heap (snd ?x) ! a)) [2, 1])"
    by (elim conjE)
  from inst pz have e: "effects (snd ?y) =
              effects (snd ?z) @
                (if timeline (snd ?z) \<noteq> None then [ReplaceEntries [2, 1]] else []) @
                [ApplyTimelineEntries [2, 1], WriteAndApplyData] @
                (if writeAndApplyData_result example_retry = Inr True then [EmitUpdate] else [])"
    and f: "filter replace_effect (effects (snd ?z)) = filter replace_effect (effects example_room2)"
    and t: "timeline (snd ?y) = timeline (fold others [SetTimeline None] (snd ?z))"
    and r: "fst ?y = (case writeAndApplyData_result example_retry of
                     Inl err \<Rightarrow> Thrown err
                   | Inr changed \<Rightarrow> Returned ())"
    by simp_all
  from e f tz rw have fr: "filter replace_effect (effects (snd ?y)) = [ReplaceEntries [2, 1]]"
    by simp
  from r ok have fy: "fst ?y = Returned ()" by auto
  from t have ty: "timeline (snd ?y) = None" by simp
  let ?z' = "run example_outcomes SourceRetry [2, 1]
          (undisposed [Resume, Resume, Resume, Resume, Resume, Resume, Other (SetTimeline None)])
          (decryptEntries SourceRetry [2, 1] (Some \<lparr>stores = retry_stores, pending = []\<rparr>)
             (snd ?x))"
  let ?y' = "notifyRoomKey example_retry example_outcomes [1, 0] []
          [Resume, Resume, Resume, Resume, Resume, Resume, Other (SetTimeline None)]
          [SetTimeline (Some \<lparr>remoteEntries = [1]\<rparr>)] example_key [''$e1'', ''$e9'']
          example_room2"
  have z': "?z' = (fst ?z', snd ?z')" and y': "?y' = (fst ?y', snd ?y')" by simp_all
  have pz': "promise (fst ?z') = Resolved"
    by (simp add: retry_example_defs example_defs undisposed_def)
  have tz': "timeline (snd ?z') = None"
    by (simp add: retry_example_defs example_defs undisposed_def)
  note inst' = notifyRoomKey_retry_batch [OF enc ids c1 c2 wf t1 t2 x z' y']
  from inst' pz' have e': "effects (snd ?y') =
              effects (snd ?z') @
                (if timeline (snd ?z') \<noteq> None then [ReplaceEntries [2, 1]] else []) @
                [ApplyTimelineEntries [2, 1], WriteAndApplyData] @
                (if writeAndApplyData_result example_retry = Inr True then [EmitUpdate] else [])"
    and f': "filter replace_effect (effects (snd ?z')) =
             filter replace_effect (effects example_room2)"
    and t': "timeline (snd ?y') =
             timeline (fold others [SetTimeline (Some \<lparr>remoteEntries = [1]\<rparr>)] (snd ?z'))"
    by simp_all
  from e' f' tz' rw have fr': "filter replace_effect (effects (snd ?y')) = []" by simp
  from t' have ty': "timeline (snd ?y') = Some \<lparr>remoteEntries = [1]\<rparr>" by simp
  from enc ids fx d pz fy fr ty fr' ty' show ?thesis by (intro conjI)
qed

end
